theory Spec2Isabelle
  imports Complex_Main "HOL-Library.AList"
begin

section \<open>Values of the host language\<close>

text \<open>
  The coordinator of \<^verbatim>\<open>src/worker.js\<close> (class \<^verbatim>\<open>SseDurableObject\<close>) handles
  JavaScript values: parsed JSON payloads, thrown errors, encoded event chunks. Texts are
  \<^typ>\<open>string\<close>, so the characters covered are U+0000 to U+00FF.

  A parsed payload is a \<open>json\<close> value. An array is a JavaScript object as well and
  can be given named properties (\<^verbatim>\<open>message.timestamp = ...\<close> on an array succeeds), so
  \<open>JArray\<close> carries its elements and its named properties; \<^verbatim>\<open>JSON.parse\<close>
  produces arrays with no named property. An object keeps its properties in insertion order.
\<close>

datatype json =
    JNull
  | JBool bool
  | JNumber rat
  | JString string
  | JArray "json list" "(string \<times> json) list"
  | JObject "(string \<times> json) list"

datatype js_error =
    SyntaxError string
  | TypeError string
  | StorageError string

fun error_message :: "js_error \<Rightarrow> string" where
  "error_message (SyntaxError m) = m"
| "error_message (TypeError m) = m"
| "error_message (StorageError m) = m"

text \<open>Truthiness, as \<^verbatim>\<open>!v\<close> tests it: \<^verbatim>\<open>null\<close>, \<^verbatim>\<open>false\<close>, \<^verbatim>\<open>0\<close> and
  \<^verbatim>\<open>""\<close> are falsy, every object and array is truthy.\<close>

fun truthy :: "json \<Rightarrow> bool" where
  "truthy JNull = False"
| "truthy (JBool b) = b"
| "truthy (JNumber r) = (r \<noteq> 0)"
| "truthy (JString s) = (s \<noteq> [])"
| "truthy (JArray xs ps) = True"
| "truthy (JObject ps) = True"

text \<open>
  \<^verbatim>\<open>message.timestamp\<close>: reading the property throws a \<^verbatim>\<open>TypeError\<close> on
  \<^verbatim>\<open>null\<close>; on a boolean, a number or a string it gives \<^verbatim>\<open>undefined\<close> (no
  prototype of the language defines \<^verbatim>\<open>timestamp\<close>); on an object or an array it gives
  the property when there is one. \<open>None\<close> is \<^verbatim>\<open>undefined\<close>.
\<close>

fun get_timestamp :: "json \<Rightarrow> js_error + json option" where
  "get_timestamp JNull =
     Inl (TypeError ''Cannot read properties of null (reading 'timestamp')'')"
| "get_timestamp (JObject ps) = Inr (map_of ps ''timestamp'')"
| "get_timestamp (JArray xs ps) = Inr (map_of ps ''timestamp'')"
| "get_timestamp (JBool b) = Inr None"
| "get_timestamp (JNumber r) = Inr None"
| "get_timestamp (JString s) = Inr None"

text \<open>
  \<^verbatim>\<open>message.timestamp = v\<close>. The file is an ES module and the statement stands in a
  class body, so the code is strict: creating a property on a boolean, a number or a string
  throws a \<^verbatim>\<open>TypeError\<close>. On an object or an array an existing property is
  overwritten in place and a new one is added last.
\<close>

fun set_timestamp :: "json \<Rightarrow> json \<Rightarrow> js_error + json" where
  "set_timestamp (JObject ps) v = Inr (JObject (AList.update ''timestamp'' v ps))"
| "set_timestamp (JArray xs ps) v = Inr (JArray xs (AList.update ''timestamp'' v ps))"
| "set_timestamp JNull v =
     Inl (TypeError ''Cannot set properties of null (setting 'timestamp')'')"
| "set_timestamp (JBool b) v =
     Inl (TypeError ''Cannot create property 'timestamp' on boolean'')"
| "set_timestamp (JNumber r) v =
     Inl (TypeError ''Cannot create property 'timestamp' on number'')"
| "set_timestamp (JString s) v =
     Inl (TypeError ''Cannot create property 'timestamp' on string'')"

subsection \<open>String operations of the host\<close>

text \<open>\<^verbatim>\<open>s.includes(t)\<close>: \<open>t\<close> occurs in \<open>s\<close> as a contiguous run of characters.\<close>

fun starts_with :: "string \<Rightarrow> string \<Rightarrow> bool" where
  "starts_with s [] = True"
| "starts_with [] (c # t) = False"
| "starts_with (d # s) (c # t) = (d = c \<and> starts_with s t)"

fun str_includes :: "string \<Rightarrow> string \<Rightarrow> bool" where
  "str_includes [] t = (t = [])"
| "str_includes (c # s) t = (starts_with (c # s) t \<or> str_includes s t)"

text \<open>\<^verbatim>\<open>s.trim()\<close> removes white space and line terminators at both ends; up to U+00FF
  these are U+0009 to U+000D, the space and the no-break space U+00A0.\<close>

definition is_js_space :: "char \<Rightarrow> bool" where
  "is_js_space c =
     (let n = (of_char c :: nat) in (9 \<le> n \<and> n \<le> 13) \<or> n = 32 \<or> n = 160)"

definition trim :: "string \<Rightarrow> string" where
  "trim s = rev (dropWhile is_js_space (rev (dropWhile is_js_space s)))"

subsection \<open>A model of JSON.parse\<close>

text \<open>
  \<^verbatim>\<open>JSON.parse\<close> is a built-in of the host. The operations below take the parser as a
  parameter of type \<^typ>\<open>string \<Rightarrow> js_error + json\<close> (\<open>Inl\<close> is the thrown
  \<^verbatim>\<open>SyntaxError\<close>), and the general theorems hold for every parser. For the examples an
  executable parser of the JSON grammar (ECMA-404) is given here: it is recursive descent
  with fuel, and the length of the text is fuel enough since every call consumes a
  character before it calls again. A number is kept as the exact value of its literal; an
  escape \<^verbatim>\<open>\uXXXX\<close> above U+00FF has no value in \<^typ>\<open>char\<close> and is rejected. The
  wording of the error message is the engine's and is not modelled.
\<close>

definition is_json_ws :: "char \<Rightarrow> bool" where
  "is_json_ws c = (let n = (of_char c :: nat) in n = 32 \<or> n = 9 \<or> n = 10 \<or> n = 13)"

definition skip_ws :: "string \<Rightarrow> string" where
  "skip_ws s = dropWhile is_json_ws s"

definition is_digit :: "char \<Rightarrow> bool" where
  "is_digit c = (let n = (of_char c :: nat) in 48 \<le> n \<and> n \<le> 57)"

definition digit_val :: "char \<Rightarrow> nat" where
  "digit_val c = of_char c - 48"

definition digits_val :: "string \<Rightarrow> nat" where
  "digits_val ds = foldl (\<lambda>a c. 10 * a + digit_val c) 0 ds"

definition hex_val :: "char \<Rightarrow> nat option" where
  "hex_val c =
     (let n = (of_char c :: nat) in
      if 48 \<le> n \<and> n \<le> 57 then Some (n - 48)
      else if 65 \<le> n \<and> n \<le> 70 then Some (n - 55)
      else if 97 \<le> n \<and> n \<le> 102 then Some (n - 87)
      else None)"

definition unescape :: "char \<Rightarrow> char option" where
  "unescape e =
     (if e = CHR ''\"'' \<or> e = CHR 0x5C \<or> e = CHR ''/'' then Some e
      else if e = CHR ''b'' then Some (CHR 0x08)
      else if e = CHR ''f'' then Some (CHR 0x0C)
      else if e = CHR ''n'' then Some (CHR 0x0A)
      else if e = CHR ''r'' then Some (CHR 0x0D)
      else if e = CHR ''t'' then Some (CHR 0x09)
      else None)"

definition unicode_escape :: "string \<Rightarrow> char option" where
  "unicode_escape hs =
     (case map hex_val hs of
        [Some a, Some b, Some c, Some d] \<Rightarrow>
          (if a = 0 \<and> b = 0 then Some (char_of (16 * c + d)) else None)
      | _ \<Rightarrow> None)"

text \<open>The characters of a string literal after its opening quote, up to the closing one.\<close>

fun parse_chars :: "string \<Rightarrow> string \<Rightarrow> (string \<times> string) option" where
  "parse_chars acc [] = None"
| "parse_chars acc (c # cs) =
     (if c = CHR ''\"'' then Some (rev acc, cs)
      else if c = CHR 0x5C then
        (case cs of
           [] \<Rightarrow> None
         | e # es \<Rightarrow>
             (if e = CHR ''u'' then
                (case unicode_escape (take 4 es) of
                   None \<Rightarrow> None
                 | Some u \<Rightarrow> parse_chars (u # acc) (drop 4 es))
              else
                (case unescape e of
                   None \<Rightarrow> None
                 | Some u \<Rightarrow> parse_chars (u # acc) es)))
      else if (of_char c :: nat) < 32 then None
      else parse_chars (c # acc) cs)"

text \<open>A number literal: sign, integer part without a leading zero, fraction, exponent.\<close>

definition parse_number :: "string \<Rightarrow> (json \<times> string) option" where
  "parse_number s =
     (let neg = (s \<noteq> [] \<and> hd s = CHR ''-'');
          s1 = (if neg then tl s else s);
          ip = takeWhile is_digit s1;
          s2 = dropWhile is_digit s1;
          has_frac = (s2 \<noteq> [] \<and> hd s2 = CHR ''.'');
          fp = (if has_frac then takeWhile is_digit (tl s2) else []);
          s3 = (if has_frac then dropWhile is_digit (tl s2) else s2);
          has_exp = (s3 \<noteq> [] \<and> (hd s3 = CHR ''e'' \<or> hd s3 = CHR ''E''));
          s4 = (if has_exp then tl s3 else s3);
          eneg = (has_exp \<and> s4 \<noteq> [] \<and> hd s4 = CHR ''-'');
          s5 = (if has_exp \<and> s4 \<noteq> [] \<and> (hd s4 = CHR ''-'' \<or> hd s4 = CHR ''+'')
                then tl s4 else s4);
          ep = (if has_exp then takeWhile is_digit s5 else []);
          s6 = (if has_exp then dropWhile is_digit s5 else s3);
          mant = (of_nat (digits_val (ip @ fp)) :: rat) / 10 ^ length fp;
          scaled = (if eneg then mant / 10 ^ digits_val ep else mant * 10 ^ digits_val ep)
      in if ip = [] \<or> (length ip > 1 \<and> hd ip = CHR ''0'') \<or> (has_frac \<and> fp = [])
            \<or> (has_exp \<and> ep = [])
         then None
         else Some (JNumber (if neg then - scaled else scaled), s6))"

fun parse_value :: "nat \<Rightarrow> string \<Rightarrow> (json \<times> string) option"
  and parse_elements :: "nat \<Rightarrow> json list \<Rightarrow> string \<Rightarrow> (json \<times> string) option"
  and parse_members :: "nat \<Rightarrow> (string \<times> json) list \<Rightarrow> string \<Rightarrow> (json \<times> string) option"
where
  "parse_value 0 s = None"
| "parse_value (Suc n) s =
     (case skip_ws s of
        [] \<Rightarrow> None
      | c # cs \<Rightarrow>
          (if c = CHR ''{'' then
             (case skip_ws cs of
                [] \<Rightarrow> None
              | d # ds \<Rightarrow> if d = CHR ''}'' then Some (JObject [], ds)
                          else parse_members n [] (d # ds))
           else if c = CHR ''['' then
             (case skip_ws cs of
                [] \<Rightarrow> None
              | d # ds \<Rightarrow> if d = CHR '']'' then Some (JArray [] [], ds)
                          else parse_elements n [] (d # ds))
           else if c = CHR ''\"'' then
             (case parse_chars [] cs of
                None \<Rightarrow> None
              | Some (str, r) \<Rightarrow> Some (JString str, r))
           else if starts_with (c # cs) ''true'' then Some (JBool True, drop 4 (c # cs))
           else if starts_with (c # cs) ''false'' then Some (JBool False, drop 5 (c # cs))
           else if starts_with (c # cs) ''null'' then Some (JNull, drop 4 (c # cs))
           else parse_number (c # cs)))"
| "parse_elements 0 acc s = None"
| "parse_elements (Suc n) acc s =
     (case parse_value n s of
        None \<Rightarrow> None
      | Some (v, r) \<Rightarrow>
          (case skip_ws r of
             [] \<Rightarrow> None
           | d # ds \<Rightarrow>
               if d = CHR '','' then parse_elements n (acc @ [v]) ds
               else if d = CHR '']'' then Some (JArray (acc @ [v]) [], ds)
               else None))"
| "parse_members 0 acc s = None"
| "parse_members (Suc n) acc s =
     (case skip_ws s of
        [] \<Rightarrow> None
      | q # qs \<Rightarrow>
          if q \<noteq> CHR ''\"'' then None
          else
            (case parse_chars [] qs of
               None \<Rightarrow> None
             | Some (k, r) \<Rightarrow>
                 (case skip_ws r of
                    [] \<Rightarrow> None
                  | c # cs \<Rightarrow>
                      if c \<noteq> CHR '':'' then None
                      else
                        (case parse_value n cs of
                           None \<Rightarrow> None
                         | Some (v, r') \<Rightarrow>
                             (case skip_ws r' of
                                [] \<Rightarrow> None
                              | d # ds \<Rightarrow>
                                  if d = CHR '','' then parse_members n (AList.update k v acc) ds
                                  else if d = CHR ''}'' then Some (JObject (AList.update k v acc), ds)
                                  else None)))))"

definition JSON_parse :: "string \<Rightarrow> js_error + json" where
  "JSON_parse s =
     (case parse_value (Suc (length s)) s of
        None \<Rightarrow> Inl (SyntaxError ''Unexpected token in JSON'')
      | Some (v, r) \<Rightarrow>
          if skip_ws r = [] then Inr v else Inl (SyntaxError ''Unexpected token in JSON''))"

section \<open>The coordinator\<close>

text \<open>
  One \<^verbatim>\<open>SseDurableObject\<close> serves one room. Its operations are modelled run to
  completion, one after the other, as the room's serialisation discipline has it; the
  clock reading \<^verbatim>\<open>new Date().toISOString()\<close> of an operation is its parameter
  \<open>now\<close>. The routing of requests to the operations (\<^verbatim>\<open>fetch\<close>, the preflight
  answer and the worker's default export) is not modelled.
\<close>

definition MAX_MESSAGES :: nat where
  "MAX_MESSAGES = 10"

definition MAX_CLIENT_QUEUE :: nat where
  "MAX_CLIENT_QUEUE = 100"

text \<open>
  An encoded chunk. \<^verbatim>\<open>TextEncoder\<close> and \<^verbatim>\<open>JSON.stringify\<close> are the host's, so a
  chunk is kept as the kind of its event and the value that was handed to
  \<^verbatim>\<open>JSON.stringify\<close>: \<open>Connected\<close> is \<^verbatim>\<open>data: Connected to SSE stream\<close>,
  \<open>Broadcast m\<close> is \<^verbatim>\<open>event: broadcast\<close> with data \<open>m\<close>, \<open>Update d\<close> is
  \<^verbatim>\<open>event: update\<close> with data \<open>d\<close>.
\<close>

datatype chunk = Connected | Broadcast json | Update json

text \<open>
  A stream controller, with the two fields the coordinator adds to it (\<^verbatim>\<open>_queue\<close>,
  \<^verbatim>\<open>_max\<close>) and the host's side of it: \<open>written\<close> are the chunks that
  \<^verbatim>\<open>controller.enqueue\<close> has accepted, in order, and \<open>credit\<close> says how many more
  calls it accepts before it throws (\<open>None\<close>: it never throws).
\<close>

record controller =
  c_queue :: "chunk list"
  c_max :: nat
  written :: "chunk list"
  credit :: "nat option"

text \<open>\<^verbatim>\<open>controller.enqueue(chunk)\<close> of the host; \<open>None\<close> when it throws.\<close>

definition controller_enqueue :: "chunk \<Rightarrow> controller \<Rightarrow> controller option" where
  "controller_enqueue x c =
     (case credit c of
        None \<Rightarrow> Some (c\<lparr>written := written c @ [x]\<rparr>)
      | Some 0 \<Rightarrow> None
      | Some (Suc n) \<Rightarrow> Some (c\<lparr>written := written c @ [x], credit := Some n\<rparr>))"

text \<open>
  The object's fields (\<open>controllers\<close>, \<open>updateInterval\<close>, \<open>lastMessages\<close>,
  \<open>ready\<close>) and what it reaches of its host. \<open>controllers\<close> is a \<^verbatim>\<open>Set\<close> of
  controller references: a duplicate-free list in insertion order, of addresses into
  \<open>heap\<close>. \<open>ready\<close> is the settled promise of the constructor's storage read:
  \<open>None\<close> when it is fulfilled, \<open>Some e\<close> when it is rejected with \<open>e\<close>.
  \<open>timers\<close> are the interval timers of the host that are set and not cleared;
  \<open>storage\<close> is the value stored under the key \<^verbatim>\<open>lastMessages\<close>; \<open>object_id\<close> is
  \<^verbatim>\<open>this.state.id.toString()\<close>.
\<close>

record sse =
  controllers :: "nat list"
  updateInterval :: "nat option"
  lastMessages :: "json list"
  ready :: "js_error option"
  heap :: "nat \<Rightarrow> controller"
  next_controller :: nat
  timers :: "nat list"
  next_timer :: nat
  storage :: "json list option"
  object_id :: string

text \<open>
  The constructor, lines 22 to 33. \<open>st\<close> is what the storage holds under
  \<^verbatim>\<open>lastMessages\<close> and \<open>rd\<close> is \<open>Some e\<close> when the read fails with \<open>e\<close>. The
  callback of \<^verbatim>\<open>then\<close> runs on a fulfilled read only, and assigns when the value read
  is truthy, as every array is. The read is taken as settled before the first operation.
\<close>

definition constructor :: "string \<Rightarrow> json list option \<Rightarrow> js_error option \<Rightarrow> sse" where
  "constructor oid st rd =
     \<lparr>controllers = [],
      updateInterval = None,
      lastMessages =
        (case rd of
           Some e \<Rightarrow> []
         | None \<Rightarrow> (case st of None \<Rightarrow> [] | Some messages \<Rightarrow> messages)),
      ready = rd,
      heap = (\<lambda>a. \<lparr>c_queue = [], c_max = 0, written = [], credit = Some 0\<rparr>),
      next_controller = 0,
      timers = [],
      next_timer = 1,
      storage = st,
      object_id = oid\<rparr>"

subsection \<open>Client queues\<close>

text \<open>The loop of \<^verbatim>\<open>tryDrainQueue\<close>, lines 173 to 175: the head is shifted off the queue
  and then written; the flag is \<open>False\<close> when a write threw.\<close>

function drain_queue :: "controller \<Rightarrow> controller \<times> bool" where
  "drain_queue c =
     (case c_queue c of
        [] \<Rightarrow> (c, True)
      | x # q \<Rightarrow>
          (case controller_enqueue x (c\<lparr>c_queue := q\<rparr>) of
             None \<Rightarrow> (c\<lparr>c_queue := q\<rparr>, False)
           | Some c' \<Rightarrow> drain_queue c'))"
  by pat_completeness auto
termination
  by (relation "measure (\<lambda>c. length (c_queue c))")
     (auto simp: controller_enqueue_def split: option.splits nat.splits)

declare drain_queue.simps [simp del]

definition tryDrainQueue :: "nat \<Rightarrow> sse \<Rightarrow> sse" where
  "tryDrainQueue cid s =
     (case drain_queue (heap s cid) of
        (c', ok) \<Rightarrow>
          (if ok then s\<lparr>heap := (heap s)(cid := c')\<rparr>
           else s\<lparr>heap := (heap s)(cid := c'), controllers := removeAll cid (controllers s)\<rparr>))"

text \<open>Lines 164 to 167 of \<^verbatim>\<open>enqueueToController\<close>: push, then shift when over the bound.\<close>

definition push_chunk :: "chunk \<Rightarrow> controller \<Rightarrow> controller" where
  "push_chunk x c =
     (let q = c_queue c @ [x]
      in c\<lparr>c_queue := (if length q > c_max c then tl q else q)\<rparr>)"

definition enqueueToController :: "nat \<Rightarrow> chunk \<Rightarrow> sse \<Rightarrow> sse" where
  "enqueueToController cid x s =
     (if cid \<notin> set (controllers s) then s
      else tryDrainQueue cid (s\<lparr>heap := (heap s)(cid := push_chunk x (heap s cid))\<rparr>))"

text \<open>\<^verbatim>\<open>for (const controller of this.controllers) this.enqueueToController(controller, x)\<close>.
  The only element a step can delete is the one being visited, so the loop visits the
  elements the set had when it started.\<close>

definition fan_out :: "chunk \<Rightarrow> sse \<Rightarrow> sse" where
  "fan_out x s = fold (\<lambda>cid. enqueueToController cid x) (controllers s) s"

subsection \<open>The heartbeat timer\<close>

text \<open>\<^verbatim>\<open>setInterval\<close> registers a new timer with the host and returns its handle.\<close>

definition startPeriodicUpdate :: "sse \<Rightarrow> sse" where
  "startPeriodicUpdate s =
     s\<lparr>updateInterval := Some (next_timer s),
       timers := timers s @ [next_timer s],
       next_timer := Suc (next_timer s)\<rparr>"

definition stopPeriodicUpdate :: "sse \<Rightarrow> sse" where
  "stopPeriodicUpdate s =
     (case updateInterval s of
        None \<Rightarrow> s
      | Some t \<Rightarrow> s\<lparr>timers := removeAll t (timers s), updateInterval := None\<rparr>)"

text \<open>The callback given to \<^verbatim>\<open>setInterval\<close>, lines 186 to 201.\<close>

definition interval_callback :: "string \<Rightarrow> sse \<Rightarrow> sse" where
  "interval_callback now s =
     fan_out (Update (JObject [(''timestamp'', JString now),
                               (''durableObjectId'', JString (object_id s))])) s"

subsection \<open>Connections\<close>

text \<open>
  The \<^verbatim>\<open>start\<close> callback of \<^verbatim>\<open>handleSseConnection\<close>, lines 73 to 90, on the
  controller at address \<open>cid\<close>. \<^verbatim>\<open>await this.ready\<close> throws when the promise is
  rejected, and nothing in the callback catches it: the callback then ends rejected
  (\<open>Inl\<close>) with the state it has reached.
\<close>

definition start :: "nat \<Rightarrow> sse \<Rightarrow> (js_error + unit) \<times> sse" where
  "start cid s =
     (let s1 = s\<lparr>heap := (heap s)(cid := (heap s cid)\<lparr>c_queue := [], c_max := MAX_CLIENT_QUEUE\<rparr>),
                 controllers := (if cid \<in> set (controllers s) then controllers s
                                 else controllers s @ [cid])\<rparr>;
          s2 = (if length (controllers s1) = 1 then startPeriodicUpdate s1 else s1);
          s3 = enqueueToController cid Connected s2
      in case ready s3 of
           Some e \<Rightarrow> (Inl e, s3)
         | None \<Rightarrow>
             (Inr (), fold (\<lambda>message. enqueueToController cid (Broadcast message))
                        (lastMessages s3) s3))"

text \<open>The \<^verbatim>\<open>cancel\<close> callback, lines 91 to 96, on its argument, taken as the address
  of a controller. An argument that is not in the set leaves the set as it is; the size
  test follows all the same.\<close>

definition cancel :: "nat \<Rightarrow> sse \<Rightarrow> sse" where
  "cancel cid s =
     (let s1 = s\<lparr>controllers := removeAll cid (controllers s)\<rparr>
      in if length (controllers s1) = 0 then stopPeriodicUpdate s1 else s1)"

text \<open>
  \<^verbatim>\<open>handleSseConnection\<close>: the host builds the stream, with a new controller whose sink
  accepts \<open>cr\<close> writes, and runs \<^verbatim>\<open>start\<close> on it. The result is the controller's
  address and how \<^verbatim>\<open>start\<close> ended. The response that wraps the stream, lines 99 to
  106, is fixed headers and is left out.
\<close>

definition handleSseConnection :: "nat option \<Rightarrow> sse \<Rightarrow> (nat \<times> (js_error + unit)) \<times> sse" where
  "handleSseConnection cr s =
     (let cid = next_controller s;
          s0 = s\<lparr>heap := (heap s)(cid := \<lparr>c_queue = [], c_max = 0, written = [], credit = cr\<rparr>),
                 next_controller := Suc cid\<rparr>
      in case start cid s0 of (r, s') \<Rightarrow> ((cid, r), s'))"

subsection \<open>Broadcasts\<close>

record request =
  content_type :: "string option"
  bodyText :: string

record response =
  status :: nat
  headers :: "(string \<times> string) list"
  body :: json

text \<open>\<^verbatim>\<open>corsHeaders(options)\<close>, lines 11 to 16: the options are spread over the fixed
  headers.\<close>

definition corsHeaders :: "(string \<times> string) list \<Rightarrow> (string \<times> string) list" where
  "corsHeaders options =
     fold (\<lambda>(k, v). AList.update k v) options
       [(''Access-Control-Allow-Origin'', ''*''),
        (''Access-Control-Allow-Headers'', ''Content-Type, Cache-Control''),
        (''Vary'', ''Origin'')]"

text \<open>
  Lines 114 to 126 of \<^verbatim>\<open>handleBroadcast\<close>: the message of a request, or the error
  thrown on the way. \<open>parse\<close> is \<^verbatim>\<open>JSON.parse\<close>. A missing header reads as
  \<^verbatim>\<open>null\<close>, which \<^verbatim>\<open>|| ''\<close> turns into the empty text.
\<close>

definition message_of_request :: "(string \<Rightarrow> js_error + json) \<Rightarrow> string \<Rightarrow> request \<Rightarrow> js_error + json" where
  "message_of_request parse now req =
     (let contentType = (case content_type req of None \<Rightarrow> [] | Some h \<Rightarrow> h);
          parsed =
            (if str_includes contentType ''application/json'' then
               (if trim (bodyText req) = [] then Inr (JObject [(''message'', JString ''Empty broadcast'')])
                else parse (bodyText req))
             else Inr (JObject [(''message'', JString ''Non-JSON broadcast'')]))
      in case parsed of
           Inl e \<Rightarrow> Inl e
         | Inr message \<Rightarrow>
             (case get_timestamp message of
                Inl e \<Rightarrow> Inl e
              | Inr ts \<Rightarrow>
                  (if (case ts of None \<Rightarrow> False | Some v \<Rightarrow> truthy v) then Inr message
                   else set_timestamp message (JString now))))"

text \<open>
  \<^verbatim>\<open>handleBroadcast\<close>, lines 112 to 158. After the message is built nothing in the
  \<^verbatim>\<open>try\<close> block throws: the push, the storage write handed to \<^verbatim>\<open>waitUntil\<close> and the
  fan-out, whose write failures \<^verbatim>\<open>tryDrainQueue\<close> catches.
\<close>

definition handleBroadcast :: "(string \<Rightarrow> js_error + json) \<Rightarrow> string \<Rightarrow> request \<Rightarrow> sse \<Rightarrow> response \<times> sse" where
  "handleBroadcast parse now req s =
     (case message_of_request parse now req of
        Inl e \<Rightarrow>
          (\<lparr>status = 400,
            headers = corsHeaders [(''Content-Type'', ''application/json'')],
            body = JObject [(''success'', JBool False), (''error'', JString (error_message e))]\<rparr>,
           s)
      | Inr message \<Rightarrow>
          (let pushed = lastMessages s @ [message];
               kept = (if length pushed > MAX_MESSAGES then tl pushed else pushed);
               s1 = s\<lparr>lastMessages := kept, storage := Some kept\<rparr>;
               s2 = fan_out (Broadcast message) s1
           in (\<lparr>status = 200,
                headers = corsHeaders [(''Content-Type'', ''application/json'')],
                body = JObject [(''success'', JBool True),
                                (''message'', JString ''Broadcast sent successfully'')]\<rparr>,
               s2)))"

text \<open>
  The other variant of the worker in the repository (\<^verbatim>\<open>src/unnamed/part_000\<close>) keeps no
  history and no client set; its \<^verbatim>\<open>handleBroadcast\<close>, lines 99 to 153, only builds the
  message and answers with it. Its placeholder messages are given their timestamp when
  they are built.
\<close>

definition getCorsHeaders :: "string \<Rightarrow> (string \<times> string) list" where
  "getCorsHeaders contentType =
     [(''Content-Type'', contentType),
      (''Access-Control-Allow-Origin'', ''*''),
      (''Access-Control-Allow-Headers'', ''Content-Type, Cache-Control'')]"

definition handleBroadcast_part000 :: "(string \<Rightarrow> js_error + json) \<Rightarrow> string \<Rightarrow> request \<Rightarrow> response" where
  "handleBroadcast_part000 parse now req =
     (let contentType = (case content_type req of None \<Rightarrow> [] | Some h \<Rightarrow> h);
          parsed =
            (if str_includes contentType ''application/json'' then
               (if trim (bodyText req) = [] then
                  Inr (JObject [(''message'', JString ''Empty broadcast''),
                                (''timestamp'', JString now)])
                else parse (bodyText req))
             else Inr (JObject [(''message'', JString ''Non-JSON broadcast''),
                                (''timestamp'', JString now)]));
          stamped =
            (case parsed of
               Inl e \<Rightarrow> Inl e
             | Inr message \<Rightarrow>
                 (case get_timestamp message of
                    Inl e \<Rightarrow> Inl e
                  | Inr ts \<Rightarrow>
                      (if (case ts of None \<Rightarrow> False | Some v \<Rightarrow> truthy v) then Inr message
                       else set_timestamp message (JString now))))
      in case stamped of
           Inr message \<Rightarrow>
             \<lparr>status = 200,
              headers = getCorsHeaders ''application/json'',
              body = JObject [(''success'', JBool True),
                              (''message'', JString ''Broadcast received successfully''),
                              (''data'', message)]\<rparr>
         | Inl e \<Rightarrow>
             \<lparr>status = 400,
              headers = getCorsHeaders ''application/json'',
              body = JObject [(''success'', JBool False),
                              (''error'', JString (error_message e)),
                              (''details'', JString ''Failed to parse broadcast request'')]\<rparr>)"

subsection \<open>Runs\<close>

text \<open>
  What can happen to a coordinator: a connection whose sink accepts the given number of
  writes, the cancellation of a stream, a broadcast request read at a clock time, and a
  tick of an interval timer, which needs a timer that is set.
\<close>

datatype event =
    Subscribe "nat option"
  | Unsubscribe nat
  | Publish request string
  | Tick string

fun step :: "(string \<Rightarrow> js_error + json) \<Rightarrow> sse \<Rightarrow> event \<Rightarrow> sse" where
  "step parse s (Subscribe cr) = snd (handleSseConnection cr s)"
| "step parse s (Unsubscribe cid) = cancel cid s"
| "step parse s (Publish req now) = snd (handleBroadcast parse now req s)"
| "step parse s (Tick now) = (if timers s = [] then s else interval_callback now s)"

definition run :: "(string \<Rightarrow> js_error + json) \<Rightarrow> sse \<Rightarrow> event list \<Rightarrow> sse" where
  "run parse s evs = foldl (step parse) s evs"

subsection \<open>Observations of a run\<close>

text \<open>The last \<open>n\<close> elements of a list, all of it when it is shorter.\<close>

definition last_n :: "nat \<Rightarrow> 'a list \<Rightarrow> 'a list" where
  "last_n n xs = drop (length xs - n) xs"

text \<open>What reaches a sink of a series of chunks written to it: all of them, or as many as
  the sink accepts.\<close>

definition deliver :: "nat option \<Rightarrow> chunk list \<Rightarrow> chunk list" where
  "deliver cr xs = (case cr of None \<Rightarrow> xs | Some n \<Rightarrow> take n xs)"

text \<open>The messages of the broadcast requests of a run that succeed, in order.\<close>

fun published :: "(string \<Rightarrow> js_error + json) \<Rightarrow> event list \<Rightarrow> json list" where
  "published parse [] = []"
| "published parse (Publish req now # evs) =
     (case message_of_request parse now req of
        Inl e \<Rightarrow> published parse evs
      | Inr message \<Rightarrow> message # published parse evs)"
| "published parse (Subscribe cr # evs) = published parse evs"
| "published parse (Unsubscribe cid # evs) = published parse evs"
| "published parse (Tick now # evs) = published parse evs"

text \<open>The invariant of the client queues: no queue is longer than the bound, and every
  registered controller carries the bound.\<close>

definition queues_bounded :: "sse \<Rightarrow> bool" where
  "queues_bounded s =
     ((\<forall>c. length (c_queue (heap s c)) \<le> MAX_CLIENT_QUEUE) \<and>
      (\<forall>c \<in> set (controllers s). c_max (heap s c) = MAX_CLIENT_QUEUE))"

text \<open>The stronger invariant: every queue is empty between two operations.\<close>

definition queues_empty :: "sse \<Rightarrow> bool" where
  "queues_empty s = (queues_bounded s \<and> (\<forall>c. c_queue (heap s c) = []))"

text \<open>
  Proof devices. \<open>registered cid s\<close> is the state in which the \<^verbatim>\<open>start\<close> callback
  begins to write (lines 74 to 80): the controller is in the set with an empty queue, and
  the timer has been started when the set has one element. \<open>is_primitive\<close> tells the
  JSON values that are neither an object nor an array.
\<close>

definition registered :: "nat \<Rightarrow> sse \<Rightarrow> sse" where
  "registered cid s =
     (let s1 = s\<lparr>heap := (heap s)(cid := (heap s cid)\<lparr>c_queue := [], c_max := MAX_CLIENT_QUEUE\<rparr>),
                 controllers := (if cid \<in> set (controllers s) then controllers s
                                 else controllers s @ [cid])\<rparr>
      in if length (controllers s1) = 1 then startPeriodicUpdate s1 else s1)"

fun is_primitive :: "json \<Rightarrow> bool" where
  "is_primitive (JObject ps) = False"
| "is_primitive (JArray xs ps) = False"
| "is_primitive JNull = True"
| "is_primitive (JBool b) = True"
| "is_primitive (JNumber r) = True"
| "is_primitive (JString s) = True"

text \<open>
  A run in which no write fails: every connection comes with a sink that never throws.
  \<open>steady\<close> is what such a run keeps: the timer is set exactly when a controller is
  registered, and every registered controller has been allocated, has a sink that never
  throws, an empty queue and a positive bound.
\<close>

fun reliable :: "event \<Rightarrow> bool" where
  "reliable (Subscribe cr) = (cr = None)"
| "reliable (Unsubscribe cid) = True"
| "reliable (Publish req now) = True"
| "reliable (Tick now) = True"

definition steady :: "sse \<Rightarrow> bool" where
  "steady s =
     (((controllers s = []) = (updateInterval s = None)) \<and>
      list_all (\<lambda>c. c < next_controller s \<and> credit (heap s c) = None \<and>
                     c_queue (heap s c) = [] \<and> 0 < c_max (heap s c)) (controllers s))"

section \<open>Properties\<close>

subsection \<open>Draining a queue\<close>

lemma controller_enqueue_frame:
  "controller_enqueue x c = Some c' \<Longrightarrow>
     c_queue c' = c_queue c \<and> c_max c' = c_max c \<and> written c' = written c @ [x]"
  by (auto simp: controller_enqueue_def split: option.splits nat.splits)

lemma drain_queue_Nil: "c_queue c = [] \<Longrightarrow> drain_queue c = (c, True)"
  by (subst drain_queue.simps) simp

lemma drain_queue_fail:
  "c_queue c = x # q \<Longrightarrow> controller_enqueue x (c\<lparr>c_queue := q\<rparr>) = None \<Longrightarrow>
   drain_queue c = (c\<lparr>c_queue := q\<rparr>, False)"
  by (subst drain_queue.simps) simp

lemma drain_queue_ok:
  "c_queue c = x # q \<Longrightarrow> controller_enqueue x (c\<lparr>c_queue := q\<rparr>) = Some c' \<Longrightarrow>
   drain_queue c = drain_queue c'"
  by (subst drain_queue.simps) simp

lemma drain_queue_frame:
  "c_max (fst (drain_queue c)) = c_max c \<and>
   length (c_queue (fst (drain_queue c))) \<le> length (c_queue c) \<and>
   (\<exists>ys. written (fst (drain_queue c)) = written c @ ys)"
proof (induction c rule: drain_queue.induct)
  case (1 c)
  show ?case
  proof (cases "c_queue c")
    case Nil
    then show ?thesis by (simp add: drain_queue_Nil)
  next
    case (Cons x q)
    show ?thesis
    proof (cases "controller_enqueue x (c\<lparr>c_queue := q\<rparr>)")
      case None
      with Cons show ?thesis by (simp add: drain_queue_fail)
    next
      case (Some c')
      from 1 [OF Cons Some] controller_enqueue_frame [OF Some] Cons show ?thesis
        by (auto simp add: drain_queue_ok [OF Cons Some])
    qed
  qed
qed

lemma drain_queue_single:
  "c_queue c = [x] \<Longrightarrow>
   drain_queue c =
     (case credit c of
        None \<Rightarrow> (c\<lparr>c_queue := [], written := written c @ [x]\<rparr>, True)
      | Some 0 \<Rightarrow> (c\<lparr>c_queue := []\<rparr>, False)
      | Some (Suc n) \<Rightarrow> (c\<lparr>c_queue := [], written := written c @ [x], credit := Some n\<rparr>, True))"
  by (subst drain_queue.simps)
     (simp add: drain_queue_Nil controller_enqueue_def split: option.splits nat.splits)

subsection \<open>What an enqueue leaves alone\<close>

lemma tryDrainQueue_fields:
  "updateInterval (tryDrainQueue cid s) = updateInterval s"
  "lastMessages (tryDrainQueue cid s) = lastMessages s"
  "ready (tryDrainQueue cid s) = ready s"
  "next_controller (tryDrainQueue cid s) = next_controller s"
  "timers (tryDrainQueue cid s) = timers s"
  "next_timer (tryDrainQueue cid s) = next_timer s"
  "storage (tryDrainQueue cid s) = storage s"
  "object_id (tryDrainQueue cid s) = object_id s"
  by (simp_all add: tryDrainQueue_def split: prod.splits)

lemma enqueueToController_fields:
  "updateInterval (enqueueToController cid x s) = updateInterval s"
  "lastMessages (enqueueToController cid x s) = lastMessages s"
  "ready (enqueueToController cid x s) = ready s"
  "next_controller (enqueueToController cid x s) = next_controller s"
  "timers (enqueueToController cid x s) = timers s"
  "next_timer (enqueueToController cid x s) = next_timer s"
  "storage (enqueueToController cid x s) = storage s"
  "object_id (enqueueToController cid x s) = object_id s"
  by (simp_all add: enqueueToController_def tryDrainQueue_fields)

lemma enqueueToController_other:
  "c \<noteq> cid \<Longrightarrow> heap (enqueueToController cid x s) c = heap s c"
  by (simp add: enqueueToController_def tryDrainQueue_def split: prod.splits)

lemma enqueueToController_unregistered:
  "cid \<notin> set (controllers s) \<Longrightarrow> enqueueToController cid x s = s"
  by (simp add: enqueueToController_def)

text \<open>Enqueueing on a registered controller whose queue is empty.\<close>

lemma enqueueToController_empty_queue:
  assumes "cid \<in> set (controllers s)" and "c_queue (heap s cid) = []"
    and "0 < c_max (heap s cid)"
  shows "enqueueToController cid x s =
     (case credit (heap s cid) of
        None \<Rightarrow> s\<lparr>heap := (heap s)(cid := (heap s cid)\<lparr>c_queue := [], written := written (heap s cid) @ [x]\<rparr>)\<rparr>
      | Some 0 \<Rightarrow> s\<lparr>heap := (heap s)(cid := (heap s cid)\<lparr>c_queue := []\<rparr>),
                    controllers := removeAll cid (controllers s)\<rparr>
      | Some (Suc n) \<Rightarrow>
          s\<lparr>heap := (heap s)(cid := (heap s cid)\<lparr>c_queue := [],
                 written := written (heap s cid) @ [x], credit := Some n\<rparr>)\<rparr>)"
proof -
  let ?c = "heap s cid"
  have p: "push_chunk x ?c = ?c\<lparr>c_queue := [x]\<rparr>"
    using assms by (simp add: push_chunk_def Let_def)
  have d: "drain_queue (?c\<lparr>c_queue := [x]\<rparr>) =
     (case credit ?c of
        None \<Rightarrow> (?c\<lparr>c_queue := [], written := written ?c @ [x]\<rparr>, True)
      | Some 0 \<Rightarrow> (?c\<lparr>c_queue := []\<rparr>, False)
      | Some (Suc n) \<Rightarrow> (?c\<lparr>c_queue := [], written := written ?c @ [x], credit := Some n\<rparr>, True))"
    using drain_queue_single [of "?c\<lparr>c_queue := [x]\<rparr>" x]
    by (simp split: option.splits nat.splits)
  show ?thesis
    using assms(1)
    by (simp add: enqueueToController_def tryDrainQueue_def p d
         split: option.splits nat.splits)
qed

lemma fold_enqueue_unregistered:
  "cid \<notin> set (controllers s) \<Longrightarrow> fold (\<lambda>x. enqueueToController cid x) xs s = s"
  by (induction xs) (simp_all add: enqueueToController_unregistered)

lemma fold_enqueue_written:
  assumes "cid \<in> set (controllers s)" and "c_queue (heap s cid) = []"
    and "0 < c_max (heap s cid)"
  shows "written (heap (fold (\<lambda>x. enqueueToController cid x) xs s) cid) =
         written (heap s cid) @ deliver (credit (heap s cid)) xs"
  using assms
proof (induction xs arbitrary: s)
  case Nil
  then show ?case by (simp add: deliver_def split: option.splits)
next
  case (Cons x xs)
  note e = enqueueToController_empty_queue [OF Cons.prems, of x]
  show ?case
  proof (cases "credit (heap s cid)")
    case None
    let ?s' = "enqueueToController cid x s"
    have "written (heap (fold (\<lambda>x. enqueueToController cid x) xs ?s') cid) =
          written (heap ?s' cid) @ deliver (credit (heap ?s' cid)) xs"
      using Cons.prems None by (intro Cons.IH) (simp_all add: e)
    then show ?thesis using None by (simp add: e deliver_def)
  next
    case (Some n)
    show ?thesis
    proof (cases n)
      case 0
      have "cid \<notin> set (controllers (enqueueToController cid x s))"
        using Some 0 by (simp add: e)
      then show ?thesis
        using Some 0 by (simp add: fold_enqueue_unregistered) (simp add: e deliver_def)
    next
      case (Suc k)
      let ?s' = "enqueueToController cid x s"
      have "written (heap (fold (\<lambda>x. enqueueToController cid x) xs ?s') cid) =
            written (heap ?s' cid) @ deliver (credit (heap ?s' cid)) xs"
        using Cons.prems Some Suc by (intro Cons.IH) (simp_all add: e)
      then show ?thesis using Some Suc by (simp add: e deliver_def)
    qed
  qed
qed

lemma fold_enqueue_other:
  "c \<noteq> cid \<Longrightarrow> heap (fold (\<lambda>x. enqueueToController cid x) xs s) c = heap s c"
  by (induction xs arbitrary: s) (simp_all add: enqueueToController_other)

lemma fold_enqueue_fields:
  "updateInterval (fold (\<lambda>x. enqueueToController cid x) xs s) = updateInterval s"
  "lastMessages (fold (\<lambda>x. enqueueToController cid x) xs s) = lastMessages s"
  "ready (fold (\<lambda>x. enqueueToController cid x) xs s) = ready s"
  "next_controller (fold (\<lambda>x. enqueueToController cid x) xs s) = next_controller s"
  "timers (fold (\<lambda>x. enqueueToController cid x) xs s) = timers s"
  "next_timer (fold (\<lambda>x. enqueueToController cid x) xs s) = next_timer s"
  "storage (fold (\<lambda>x. enqueueToController cid x) xs s) = storage s"
  "object_id (fold (\<lambda>x. enqueueToController cid x) xs s) = object_id s"
  by (induction xs arbitrary: s; simp add: enqueueToController_fields)+

subsection \<open>The replay buffer along a run\<close>

lemma published_append:
  "published parse (evs @ evs') = published parse evs @ published parse evs'"
  by (induction parse evs rule: published.induct) (simp_all split: sum.splits)

lemma run_snoc: "run parse s (evs @ [ev]) = step parse (run parse s evs) ev"
  by (simp add: run_def)

lemma run_Nil: "run parse s [] = s"
  by (simp add: run_def)

lemma run_Cons: "run parse s (ev # evs) = run parse (step parse s ev) evs"
  by (simp add: run_def)

lemma fan_out_fields:
  "updateInterval (fan_out x s) = updateInterval s"
  "lastMessages (fan_out x s) = lastMessages s"
  "ready (fan_out x s) = ready s"
  "next_controller (fan_out x s) = next_controller s"
  "timers (fan_out x s) = timers s"
  "next_timer (fan_out x s) = next_timer s"
  "storage (fan_out x s) = storage s"
  "object_id (fan_out x s) = object_id s"
proof -
  have "\<And>s. updateInterval (fold (\<lambda>cid. enqueueToController cid x) cs s) = updateInterval s \<and>
    lastMessages (fold (\<lambda>cid. enqueueToController cid x) cs s) = lastMessages s \<and>
    ready (fold (\<lambda>cid. enqueueToController cid x) cs s) = ready s \<and>
    next_controller (fold (\<lambda>cid. enqueueToController cid x) cs s) = next_controller s \<and>
    timers (fold (\<lambda>cid. enqueueToController cid x) cs s) = timers s \<and>
    next_timer (fold (\<lambda>cid. enqueueToController cid x) cs s) = next_timer s \<and>
    storage (fold (\<lambda>cid. enqueueToController cid x) cs s) = storage s \<and>
    object_id (fold (\<lambda>cid. enqueueToController cid x) cs s) = object_id s" for cs
    by (induction cs) (simp_all add: enqueueToController_fields)
  then show "updateInterval (fan_out x s) = updateInterval s"
  "lastMessages (fan_out x s) = lastMessages s"
  "ready (fan_out x s) = ready s"
  "next_controller (fan_out x s) = next_controller s"
  "timers (fan_out x s) = timers s"
  "next_timer (fan_out x s) = next_timer s"
  "storage (fan_out x s) = storage s"
  "object_id (fan_out x s) = object_id s"
    by (simp_all add: fan_out_def)
qed

lemma replay_fields:
  "updateInterval (fold (\<lambda>m. enqueueToController cid (Broadcast m)) ms s) = updateInterval s"
  "lastMessages (fold (\<lambda>m. enqueueToController cid (Broadcast m)) ms s) = lastMessages s"
  "ready (fold (\<lambda>m. enqueueToController cid (Broadcast m)) ms s) = ready s"
  "next_controller (fold (\<lambda>m. enqueueToController cid (Broadcast m)) ms s) = next_controller s"
  "timers (fold (\<lambda>m. enqueueToController cid (Broadcast m)) ms s) = timers s"
  "next_timer (fold (\<lambda>m. enqueueToController cid (Broadcast m)) ms s) = next_timer s"
  "storage (fold (\<lambda>m. enqueueToController cid (Broadcast m)) ms s) = storage s"
  "object_id (fold (\<lambda>m. enqueueToController cid (Broadcast m)) ms s) = object_id s"
  by (induction ms arbitrary: s; simp add: enqueueToController_fields)+

lemma start_lastMessages: "lastMessages (snd (start cid s)) = lastMessages s"
  by (simp add: start_def Let_def startPeriodicUpdate_def enqueueToController_fields
        replay_fields split: option.splits)

lemma handleSseConnection_snd:
  "snd (handleSseConnection cr s) =
   snd (start (next_controller s)
     (s\<lparr>heap := (heap s)(next_controller s := \<lparr>c_queue = [], c_max = 0, written = [], credit = cr\<rparr>),
        next_controller := Suc (next_controller s)\<rparr>))"
  by (simp add: handleSseConnection_def Let_def split_def)

lemma step_lastMessages:
  "lastMessages (step parse s ev) =
     (let pushed = lastMessages s @ published parse [ev]
      in if length pushed > MAX_MESSAGES then tl pushed else pushed) \<and> published parse [ev] \<noteq> [] \<or>
   lastMessages (step parse s ev) = lastMessages s \<and> published parse [ev] = []"
proof (cases ev)
  case (Subscribe cr)
  then show ?thesis
    by (simp add: handleSseConnection_snd start_lastMessages)
next
  case (Unsubscribe cid)
  then show ?thesis
    by (simp add: cancel_def Let_def stopPeriodicUpdate_def split: option.splits)
next
  case (Publish req now)
  then show ?thesis
    by (simp add: handleBroadcast_def Let_def fan_out_fields split: sum.splits)
next
  case (Tick now)
  then show ?thesis by (simp add: interval_callback_def fan_out_fields)
qed

lemma last_n_short: "length xs \<le> n \<Longrightarrow> last_n n xs = xs"
  by (simp add: last_n_def)

lemma length_last_n: "length (last_n n xs) = min (length xs) n"
  by (simp add: last_n_def)

lemma last_n_push:
  assumes "0 < n"
  shows "(let pushed = last_n n xs @ [x] in if length pushed > n then tl pushed else pushed) =
         last_n n (xs @ [x])"
proof (cases "length xs < n")
  case True
  then show ?thesis by (simp add: last_n_def Let_def)
next
  case False
  then have len: "n \<le> length xs" by simp
  have ne: "drop (length xs - n) xs \<noteq> []" using assms len by simp
  have "tl (drop (length xs - n) xs @ [x]) = tl (drop (length xs - n) xs) @ [x]"
    using ne by simp
  also have "tl (drop (length xs - n) xs) = drop (Suc (length xs - n)) xs"
    by (simp add: drop_Suc tl_drop)
  finally show ?thesis
    using len assms by (simp add: last_n_def Let_def Suc_diff_le)
qed

lemma published_single:
  "published parse [ev] = [] \<or> (\<exists>m. published parse [ev] = [m])"
  by (cases ev) (simp_all split: sum.splits)

subsection \<open>Bounded queues\<close>

lemma push_chunk_fields:
  "c_max (push_chunk x c) = c_max c" "written (push_chunk x c) = written c"
  "credit (push_chunk x c) = credit c"
  by (simp_all add: push_chunk_def Let_def)

lemma push_chunk_length:
  "length (c_queue c) \<le> c_max c \<Longrightarrow> length (c_queue (push_chunk x c)) \<le> c_max c"
  by (simp add: push_chunk_def Let_def)

lemma enqueueToController_bounded:
  assumes "queues_bounded s"
  shows "queues_bounded (enqueueToController cid x s)"
proof (cases "cid \<in> set (controllers s)")
  case False
  with assms show ?thesis by (simp add: enqueueToController_unregistered)
next
  case True
  let ?c = "push_chunk x (heap s cid)"
  from assms True have m: "c_max (heap s cid) = MAX_CLIENT_QUEUE"
    and l: "length (c_queue (heap s cid)) \<le> MAX_CLIENT_QUEUE"
    by (auto simp: queues_bounded_def)
  from push_chunk_length [of "heap s cid" x] m l
  have "length (c_queue ?c) \<le> MAX_CLIENT_QUEUE" by simp
  with drain_queue_frame [of ?c]
  have d: "length (c_queue (fst (drain_queue ?c))) \<le> MAX_CLIENT_QUEUE"
    "c_max (fst (drain_queue ?c)) = MAX_CLIENT_QUEUE"
    using m by (simp_all add: push_chunk_fields)
  show ?thesis
    using assms True d
    by (auto simp: queues_bounded_def enqueueToController_def tryDrainQueue_def
          split: prod.splits)
qed

lemma fan_out_bounded: "queues_bounded s \<Longrightarrow> queues_bounded (fan_out x s)"
proof -
  have "queues_bounded s \<Longrightarrow> queues_bounded (fold (\<lambda>cid. enqueueToController cid x) cs s)" for cs
    by (induction cs arbitrary: s) (simp_all add: enqueueToController_bounded)
  then show "queues_bounded s \<Longrightarrow> queues_bounded (fan_out x s)"
    by (simp add: fan_out_def)
qed

lemma replay_bounded:
  "queues_bounded s \<Longrightarrow>
   queues_bounded (fold (\<lambda>m. enqueueToController cid (Broadcast m)) ms s)"
  by (induction ms arbitrary: s) (simp_all add: enqueueToController_bounded)

lemma start_bounded:
  assumes "\<forall>c. length (c_queue (heap s c)) \<le> MAX_CLIENT_QUEUE"
    and "\<forall>c \<in> set (controllers s). c \<noteq> cid \<longrightarrow> c_max (heap s c) = MAX_CLIENT_QUEUE"
  shows "queues_bounded (snd (start cid s))"
proof -
  let ?s1 = "s\<lparr>heap := (heap s)(cid := (heap s cid)\<lparr>c_queue := [], c_max := MAX_CLIENT_QUEUE\<rparr>),
               controllers := (if cid \<in> set (controllers s) then controllers s
                               else controllers s @ [cid])\<rparr>"
  have 1: "queues_bounded ?s1" using assms by (auto simp: queues_bounded_def)
  then have 2: "queues_bounded (startPeriodicUpdate ?s1)"
    by (simp add: queues_bounded_def startPeriodicUpdate_def)
  let ?s2 = "if length (controllers ?s1) = 1 then startPeriodicUpdate ?s1 else ?s1"
  have "queues_bounded ?s2" using 1 2 by (simp only: if_split) simp
  then have 3: "queues_bounded (enqueueToController cid Connected ?s2)"
    by (rule enqueueToController_bounded)
  have "snd (start cid s) = enqueueToController cid Connected ?s2 \<or>
        snd (start cid s) = fold (\<lambda>m. enqueueToController cid (Broadcast m))
           (lastMessages (enqueueToController cid Connected ?s2))
           (enqueueToController cid Connected ?s2)"
    by (simp add: start_def Let_def split: option.splits)
  with 3 replay_bounded [OF 3] show ?thesis by auto
qed

lemma step_bounded:
  assumes "queues_bounded s"
  shows "queues_bounded (step parse s ev)"
proof (cases ev)
  case (Subscribe cr)
  have "queues_bounded (snd (start (next_controller s)
     (s\<lparr>heap := (heap s)(next_controller s := \<lparr>c_queue = [], c_max = 0, written = [], credit = cr\<rparr>),
        next_controller := Suc (next_controller s)\<rparr>)))"
    using assms by (intro start_bounded) (auto simp: queues_bounded_def)
  with Subscribe show ?thesis by (simp add: handleSseConnection_snd)
next
  case (Unsubscribe cid)
  with assms show ?thesis
    by (auto simp: cancel_def Let_def stopPeriodicUpdate_def queues_bounded_def
          split: option.splits)
next
  case (Publish req now)
  have "queues_bounded (s\<lparr>lastMessages := ms, storage := st\<rparr>)" for ms st
    using assms by (simp add: queues_bounded_def)
  with Publish assms show ?thesis
    by (simp add: handleBroadcast_def Let_def fan_out_bounded split: sum.splits)
next
  case (Tick now)
  with assms show ?thesis by (simp add: interval_callback_def fan_out_bounded)
qed

lemma run_bounded: "queues_bounded s \<Longrightarrow> queues_bounded (run parse s evs)"
  by (induction evs rule: rev_induct) (simp_all add: run_Nil run_snoc step_bounded)

lemma constructor_bounded: "queues_bounded (constructor oid st rd)"
  by (simp add: queues_bounded_def constructor_def)

lemma last_n_append: "last_n n (last_n n ys @ xs) = last_n n (ys @ xs)"
proof (cases "length ys \<le> n")
  case True
  then show ?thesis by (simp add: last_n_short)
next
  case False
  then have k: "length ys - n \<le> length ys" and l: "length (drop (length ys - n) ys) = n"
    by simp_all
  have e: "length ys + length xs - n = length xs + (length ys - n)"
    using False by arith
  have "last_n n (ys @ xs) = drop (length xs + (length ys - n)) (ys @ xs)"
    by (simp add: last_n_def e)
  also have "\<dots> = drop (length xs) (drop (length ys - n) ys @ xs)"
    using k by (simp flip: drop_drop)
  also have "\<dots> = last_n n (last_n n ys @ xs)"
    using l by (simp add: last_n_def)
  finally show ?thesis by simp
qed

lemma push_chunk_queue:
  assumes "length (c_queue c) \<le> c_max c"
  shows "c_queue (push_chunk x c) = last_n (c_max c) (c_queue c @ [x])"
proof (cases "c_max c = 0")
  case True
  with assms show ?thesis by (simp add: push_chunk_def Let_def last_n_def)
next
  case False
  then have "0 < c_max c" by simp
  from last_n_push [OF this, of "c_queue c" x] assms show ?thesis
    by (simp add: push_chunk_def Let_def last_n_short)
qed

lemma fold_push_chunk:
  "length (c_queue c) \<le> c_max c \<Longrightarrow>
   c_queue (fold push_chunk xs c) = last_n (c_max c) (c_queue c @ xs) \<and>
   c_max (fold push_chunk xs c) = c_max c"
proof (induction xs arbitrary: c)
  case Nil
  then show ?case by (simp add: last_n_short)
next
  case (Cons x xs)
  have l: "length (c_queue (push_chunk x c)) \<le> c_max (push_chunk x c)"
    using Cons.prems by (simp add: push_chunk_def Let_def)
  from last_n_append [of "c_max c" "c_queue c @ [x]" xs]
  have q: "last_n (c_max c) (c_queue (push_chunk x c) @ xs) = last_n (c_max c) (c_queue c @ x # xs)"
    by (simp add: push_chunk_queue [OF Cons.prems])
  from Cons.IH [OF l] q show ?case by (simp add: push_chunk_fields)
qed

lemma run_lastMessages:
  assumes "length (lastMessages s) \<le> MAX_MESSAGES"
  shows "lastMessages (run parse s evs) =
           last_n MAX_MESSAGES (lastMessages s @ published parse evs)"
proof (induction evs rule: rev_induct)
  case Nil
  show ?case using assms by (simp add: run_Nil last_n_short)
next
  case (snoc ev evs)
  let ?t = "run parse s evs"
  from step_lastMessages [of parse ?t ev] show ?case
  proof
    assume a: "lastMessages (step parse ?t ev) =
        (let pushed = lastMessages ?t @ published parse [ev]
         in if length pushed > MAX_MESSAGES then tl pushed else pushed) \<and>
        published parse [ev] \<noteq> []"
    with published_single [of parse ev] obtain m where m: "published parse [ev] = [m]"
      by auto
    have "0 < MAX_MESSAGES" by (simp add: MAX_MESSAGES_def)
    from last_n_push [OF this, of "lastMessages s @ published parse evs" m] a m snoc.IH
    show ?thesis by (simp add: run_snoc published_append)
  next
    assume "lastMessages (step parse ?t ev) = lastMessages ?t \<and> published parse [ev] = []"
    with snoc.IH show ?thesis by (simp add: run_snoc published_append)
  qed
qed

subsection \<open>A new connection\<close>

lemma registered_fields:
  "lastMessages (registered cid s) = lastMessages s"
  "ready (registered cid s) = ready s"
  "next_controller (registered cid s) = next_controller s"
  "cid \<in> set (controllers (registered cid s))"
  "heap (registered cid s) cid = (heap s cid)\<lparr>c_queue := [], c_max := MAX_CLIENT_QUEUE\<rparr>"
  "c \<noteq> cid \<Longrightarrow> heap (registered cid s) c = heap s c"
  by (simp_all add: registered_def Let_def startPeriodicUpdate_def)

lemma start_registered:
  "start cid s =
     (case ready s of
        Some e \<Rightarrow> (Inl e, enqueueToController cid Connected (registered cid s))
      | None \<Rightarrow>
          (Inr (), fold (\<lambda>x. enqueueToController cid x)
                     (Connected # map Broadcast (lastMessages s)) (registered cid s)))"
proof -
  have "fold (\<lambda>m. enqueueToController cid (Broadcast m)) ms t =
        fold (\<lambda>x. enqueueToController cid x) (map Broadcast ms) t" for ms t
    by (simp add: fold_map comp_def)
  then show ?thesis
    by (simp add: start_def registered_def Let_def enqueueToController_fields
          startPeriodicUpdate_def split: option.splits)
qed

lemma handleSseConnection_written:
  assumes "ready s = None"
  shows "case handleSseConnection cr s of
           ((cid, r), s') \<Rightarrow>
             cid = next_controller s \<and> r = Inr () \<and>
             next_controller s' = Suc (next_controller s) \<and>
             written (heap s' cid) =
               deliver cr (Connected # map Broadcast (lastMessages s)) \<and>
             (\<forall>c. c \<noteq> cid \<longrightarrow> heap s' c = heap s c)"
proof -
  let ?cid = "next_controller s"
  let ?s0 = "s\<lparr>heap := (heap s)(?cid := \<lparr>c_queue = [], c_max = 0, written = [], credit = cr\<rparr>),
               next_controller := Suc ?cid\<rparr>"
  let ?xs = "Connected # map Broadcast (lastMessages s)"
  let ?r = "registered ?cid ?s0"
  have w: "written (heap (fold (\<lambda>x. enqueueToController ?cid x) ?xs ?r) ?cid) =
           written (heap ?r ?cid) @ deliver (credit (heap ?r ?cid)) ?xs"
    by (rule fold_enqueue_written) (simp_all add: registered_fields MAX_CLIENT_QUEUE_def)
  have o: "c \<noteq> ?cid \<Longrightarrow> heap (fold (\<lambda>x. enqueueToController ?cid x) ?xs ?r) c = heap s c" for c
    by (simp add: fold_enqueue_other enqueueToController_other registered_fields)
  have n: "next_controller (fold (\<lambda>x. enqueueToController ?cid x) ?xs ?r) = Suc ?cid"
    by (simp add: fold_enqueue_fields enqueueToController_fields registered_fields)
  have st: "start ?cid ?s0 = (Inr (), fold (\<lambda>x. enqueueToController ?cid x) ?xs ?r)"
    using assms by (simp add: start_registered)
  show ?thesis
    unfolding handleSseConnection_def Let_def st
    using w o n by (simp add: registered_fields)
qed

lemma enqueueToController_stays:
  assumes "cid \<in> set (controllers s)" and "c_queue (heap s cid) = []"
    and "0 < c_max (heap s cid)"
  shows "(cid \<in> set (controllers (enqueueToController cid x s))) = (credit (heap s cid) \<noteq> Some 0)"
  using assms(1)
  by (simp add: enqueueToController_empty_queue [OF assms] split: option.splits nat.splits)

lemma handleSseConnection_rejected:
  assumes "ready s = Some e"
  shows "case handleSseConnection cr s of
      ((cid, r), s') \<Rightarrow>
        r = Inl e \<and>
        cid \<in> set (controllers s') = (cr \<noteq> Some 0) \<and>
        written (heap s' cid) = deliver cr [Connected] \<and>
        lastMessages s' = lastMessages s"
proof -
  let ?cid = "next_controller s"
  let ?s0 = "s\<lparr>heap := (heap s)(?cid := \<lparr>c_queue = [], c_max = 0, written = [], credit = cr\<rparr>),
               next_controller := Suc ?cid\<rparr>"
  let ?r = "registered ?cid ?s0"
  let ?s' = "enqueueToController ?cid Connected ?r"
  have st: "start ?cid ?s0 = (Inl e, ?s')"
    using assms by (simp add: start_registered)
  have h: "handleSseConnection cr s = ((?cid, Inl e), ?s')"
    unfolding handleSseConnection_def Let_def st by simp
  have p: "?cid \<in> set (controllers ?r)" "c_queue (heap ?r ?cid) = []" "0 < c_max (heap ?r ?cid)"
    by (simp_all add: registered_fields MAX_CLIENT_QUEUE_def)
  have cr: "credit (heap ?r ?cid) = cr" "written (heap ?r ?cid) = []"
    by (simp_all add: registered_fields)
  from enqueueToController_stays [OF p, of Connected]
  have c: "(?cid \<in> set (controllers ?s')) = (cr \<noteq> Some 0)"
    by (simp only: cr)
  from fold_enqueue_written [OF p, of "[Connected]"]
  have w: "written (heap ?s' ?cid) = deliver cr [Connected]"
    by (simp add: cr)
  have l: "lastMessages ?s' = lastMessages s"
    by (simp add: enqueueToController_fields registered_fields)
  show ?thesis unfolding h using c w l by simp
qed

subsection \<open>Writes only append to what a sink has received\<close>

lemma enqueueToController_grows:
  "\<exists>ys. written (heap (enqueueToController cid x s) c) = written (heap s c) @ ys"
proof (cases "c = cid \<and> cid \<in> set (controllers s)")
  case True
  from drain_queue_frame [of "push_chunk x (heap s cid)"]
  obtain ys where "written (fst (drain_queue (push_chunk x (heap s cid)))) = written (heap s cid) @ ys"
    by (auto simp: push_chunk_fields)
  with True show ?thesis
    by (auto simp: enqueueToController_def tryDrainQueue_def split: prod.splits)
next
  case False
  then show ?thesis
    by (cases "c = cid") (simp_all add: enqueueToController_unregistered enqueueToController_other)
qed

lemma fold_enqueue_grows:
  "\<exists>ys. written (heap (fold (\<lambda>x. enqueueToController cid x) xs s) c) = written (heap s c) @ ys"
proof (induction xs arbitrary: s)
  case Nil
  show ?case by simp
next
  case (Cons x xs)
  from Cons.IH [of "enqueueToController cid x s"] enqueueToController_grows [of cid x s c]
  show ?case by auto
qed

lemma fan_out_grows:
  "\<exists>ys. written (heap (fan_out x s) c) = written (heap s c) @ ys"
proof -
  have "\<exists>ys. written (heap (fold (\<lambda>cid. enqueueToController cid x) cs s) c) = written (heap s c) @ ys"
    for cs
  proof (induction cs arbitrary: s)
    case Nil
    show ?case by simp
  next
    case (Cons d cs)
    from Cons.IH [of "enqueueToController d x s"] enqueueToController_grows [of d x s c]
    show ?case by auto
  qed
  then show ?thesis by (simp add: fan_out_def)
qed

lemma handleBroadcast_state:
  "snd (handleBroadcast parse now req s) = s \<or>
   (\<exists>m kept. snd (handleBroadcast parse now req s) =
      fan_out (Broadcast m) (s\<lparr>lastMessages := kept, storage := Some kept\<rparr>))"
  by (cases "message_of_request parse now req") (auto simp: handleBroadcast_def Let_def)

lemma step_grows:
  assumes "c < next_controller s"
  shows "(\<exists>ys. written (heap (step parse s ev) c) = written (heap s c) @ ys) \<and>
         next_controller s \<le> next_controller (step parse s ev)"
proof (cases ev)
  case (Subscribe cr)
  let ?cid = "next_controller s"
  let ?s0 = "s\<lparr>heap := (heap s)(?cid := \<lparr>c_queue = [], c_max = 0, written = [], credit = cr\<rparr>),
               next_controller := Suc ?cid\<rparr>"
  have ne: "c \<noteq> ?cid" using assms by simp
  have "heap (snd (start ?cid ?s0)) c = heap s c"
    using ne by (simp add: start_registered fold_enqueue_other enqueueToController_other
        registered_fields split: option.splits)
  moreover have "next_controller (snd (start ?cid ?s0)) = Suc ?cid"
    by (simp add: start_registered fold_enqueue_fields enqueueToController_fields
        registered_fields split: option.splits)
  ultimately show ?thesis using Subscribe by (simp add: handleSseConnection_snd)
next
  case (Unsubscribe cid)
  then show ?thesis
    by (simp add: cancel_def Let_def stopPeriodicUpdate_def split: option.splits)
next
  case (Publish req now)
  from handleBroadcast_state [of parse now req s] show ?thesis
  proof
    assume "snd (handleBroadcast parse now req s) = s"
    with Publish show ?thesis by simp
  next
    assume "\<exists>m kept. snd (handleBroadcast parse now req s) =
       fan_out (Broadcast m) (s\<lparr>lastMessages := kept, storage := Some kept\<rparr>)"
    then obtain m kept where e: "snd (handleBroadcast parse now req s) =
       fan_out (Broadcast m) (s\<lparr>lastMessages := kept, storage := Some kept\<rparr>)"
      by blast
    from fan_out_grows [of "Broadcast m" "s\<lparr>lastMessages := kept, storage := Some kept\<rparr>" c]
    show ?thesis using Publish by (simp add: e fan_out_fields)
  qed
next
  case (Tick now)
  from fan_out_grows [of _ s c] Tick show ?thesis
    by (simp add: interval_callback_def fan_out_fields)
qed

lemma run_grows:
  assumes "c < next_controller s"
  shows "(\<exists>ys. written (heap (run parse s evs) c) = written (heap s c) @ ys) \<and>
         next_controller s \<le> next_controller (run parse s evs)"
proof (induction evs rule: rev_induct)
  case Nil
  show ?case by (simp add: run_Nil)
next
  case (snoc ev evs)
  then have "c < next_controller (run parse s evs)" using assms by simp
  from step_grows [OF this, of parse ev] snoc show ?case
    by (auto simp: run_snoc)
qed

subsection \<open>The settled read\<close>

lemma step_ready: "ready (step parse s ev) = ready s"
proof (cases ev)
  case (Subscribe cr)
  then show ?thesis
    by (simp add: handleSseConnection_snd start_registered fold_enqueue_fields
          enqueueToController_fields registered_fields split: option.splits)
next
  case (Unsubscribe cid)
  then show ?thesis
    by (simp add: cancel_def Let_def stopPeriodicUpdate_def split: option.splits)
next
  case (Publish req now)
  then show ?thesis
    by (simp add: handleBroadcast_def Let_def fan_out_fields split: sum.splits)
next
  case (Tick now)
  then show ?thesis by (simp add: interval_callback_def fan_out_fields)
qed

lemma run_ready: "ready (run parse s evs) = ready s"
  by (induction evs rule: rev_induct) (simp_all add: run_Nil run_snoc step_ready)

subsection \<open>The message of a request\<close>

lemma message_of_request_json:
  assumes "content_type req = Some ct" and "str_includes ct ''application/json''"
    and "trim (bodyText req) \<noteq> []"
  shows "message_of_request parse now req =
     (case parse (bodyText req) of
        Inl e \<Rightarrow> Inl e
      | Inr message \<Rightarrow>
          (case get_timestamp message of
             Inl e \<Rightarrow> Inl e
           | Inr ts \<Rightarrow>
               (if (case ts of None \<Rightarrow> False | Some v \<Rightarrow> truthy v) then Inr message
                else set_timestamp message (JString now))))"
  using assms by (simp add: message_of_request_def)

lemma handleBroadcast_stores:
  assumes "message_of_request parse now req = Inr m"
  shows "lastMessages (snd (handleBroadcast parse now req s)) \<noteq> [] \<and>
         last (lastMessages (snd (handleBroadcast parse now req s))) = m \<and>
         storage (snd (handleBroadcast parse now req s)) =
           Some (lastMessages (snd (handleBroadcast parse now req s))) \<and>
         body (fst (handleBroadcast parse now req s)) =
           JObject [(''success'', JBool True),
                    (''message'', JString ''Broadcast sent successfully'')]"
proof -
  have "last (tl (xs @ [m])) = m" if "MAX_MESSAGES < Suc (length xs)" for xs :: "json list"
    using that by (cases xs) (simp_all add: MAX_MESSAGES_def)
  moreover have "tl (xs @ [m]) \<noteq> []" if "MAX_MESSAGES < Suc (length xs)" for xs :: "json list"
    using that by (cases xs) (simp_all add: MAX_MESSAGES_def)
  ultimately show ?thesis
    using assms by (simp add: handleBroadcast_def Let_def fan_out_fields)
qed

lemma stamped_timestamp:
  assumes "get_timestamp p = Inr ts"
    and "(if (case ts of None \<Rightarrow> False | Some v \<Rightarrow> truthy v) then Inr p
          else set_timestamp p (JString now)) = Inr m"
  shows "get_timestamp m =
           Inr (Some (case ts of None \<Rightarrow> JString now
                      | Some v \<Rightarrow> if truthy v then v else JString now))"
  using assms
  by (cases p; cases ts) (auto simp: update_Some_unfold map_of_eq_None_iff split: if_splits)

lemma publish_primitive_examples:
  "body (fst (handleBroadcast JSON_parse now
      \<lparr>content_type = Some ''application/json'', bodyText = ''42''\<rparr> s)) =
     JObject [(''success'', JBool False),
              (''error'', JString ''Cannot create property 'timestamp' on number'')] \<and>
   body (fst (handleBroadcast JSON_parse now
      \<lparr>content_type = Some ''application/json'', bodyText = ''\"hi\"''\<rparr> s)) =
     JObject [(''success'', JBool False),
              (''error'', JString ''Cannot create property 'timestamp' on string'')] \<and>
   body (fst (handleBroadcast JSON_parse now
      \<lparr>content_type = Some ''application/json'', bodyText = ''true''\<rparr> s)) =
     JObject [(''success'', JBool False),
              (''error'', JString ''Cannot create property 'timestamp' on boolean'')] \<and>
   last (lastMessages (snd (handleBroadcast JSON_parse now
      \<lparr>content_type = Some ''application/json'', bodyText = ''[1]''\<rparr> s))) =
     JArray [JNumber 1] [(''timestamp'', JString now)]"
proof -
  have p: "JSON_parse ''42'' = Inr (JNumber 42)" "JSON_parse ''\"hi\"'' = Inr (JString ''hi'')"
    "JSON_parse ''true'' = Inr (JBool True)" "JSON_parse ''[1]'' = Inr (JArray [JNumber 1] [])"
    by code_simp+
  have t: "trim ''42'' \<noteq> []" "trim ''\"hi\"'' \<noteq> []" "trim ''true'' \<noteq> []" "trim ''[1]'' \<noteq> []"
    by (simp_all add: trim_def is_js_space_def)
  have "message_of_request JSON_parse now
      \<lparr>content_type = Some ''application/json'', bodyText = ''[1]''\<rparr> =
      Inr (JArray [JNumber 1] [(''timestamp'', JString now)])"
    by (simp add: p t message_of_request_def)
  from handleBroadcast_stores [OF this, of s] show ?thesis
    by (simp add: p t handleBroadcast_def message_of_request_def)
qed

subsection \<open>An occupied room has its heartbeat\<close>

text \<open>Removals never leave a registered controller without a timer: along every run,
  a room with a registered controller has its timer set. The converse is claim C1.\<close>

lemma enqueueToController_subset:
  "set (controllers (enqueueToController cid x s)) \<subseteq> set (controllers s)"
  by (auto simp: enqueueToController_def tryDrainQueue_def split: prod.splits)

lemma fold_enqueue_subset:
  "set (controllers (fold (\<lambda>x. enqueueToController cid x) xs s)) \<subseteq> set (controllers s)"
proof (induction xs arbitrary: s)
  case Nil
  show ?case by simp
next
  case (Cons x xs)
  from Cons.IH [of "enqueueToController cid x s"] enqueueToController_subset [of cid x s]
  show ?case by auto
qed

lemma fan_out_subset: "set (controllers (fan_out x s)) \<subseteq> set (controllers s)"
proof -
  have "set (controllers (fold (\<lambda>cid. enqueueToController cid x) cs s)) \<subseteq> set (controllers s)"
    for cs
  proof (induction cs arbitrary: s)
    case Nil
    show ?case by simp
  next
    case (Cons d cs)
    from Cons.IH [of "enqueueToController d x s"] enqueueToController_subset [of d x s]
    show ?case by auto
  qed
  then show ?thesis by (simp add: fan_out_def)
qed

lemma registered_heartbeat:
  "controllers s \<noteq> [] \<longrightarrow> updateInterval s \<noteq> None \<Longrightarrow>
   updateInterval (registered cid s) \<noteq> None"
  by (cases "controllers s") (auto simp: registered_def Let_def startPeriodicUpdate_def)

lemma step_heartbeat:
  assumes "controllers s \<noteq> [] \<longrightarrow> updateInterval s \<noteq> None"
  shows "controllers (step parse s ev) \<noteq> [] \<longrightarrow> updateInterval (step parse s ev) \<noteq> None"
proof (cases ev)
  case (Subscribe cr)
  let ?cid = "next_controller s"
  let ?s0 = "s\<lparr>heap := (heap s)(?cid := \<lparr>c_queue = [], c_max = 0, written = [], credit = cr\<rparr>),
               next_controller := Suc ?cid\<rparr>"
  have "updateInterval (registered ?cid ?s0) \<noteq> None"
    using assms by (intro registered_heartbeat) simp
  then have "updateInterval (snd (start ?cid ?s0)) \<noteq> None"
    by (simp add: start_registered fold_enqueue_fields enqueueToController_fields
          split: option.splits)
  with Subscribe show ?thesis by (simp add: handleSseConnection_snd)
next
  case (Unsubscribe cid)
  show ?thesis
  proof (cases "removeAll cid (controllers s) = []")
    case True
    with Unsubscribe show ?thesis
      by (simp add: cancel_def Let_def stopPeriodicUpdate_def split: option.splits)
  next
    case False
    then have "controllers s \<noteq> []" by auto
    with assms False Unsubscribe show ?thesis by (simp add: cancel_def Let_def)
  qed
next
  case (Publish req now)
  from handleBroadcast_state [of parse now req s] show ?thesis
  proof
    assume "snd (handleBroadcast parse now req s) = s"
    with Publish assms show ?thesis by simp
  next
    assume "\<exists>m kept. snd (handleBroadcast parse now req s) =
       fan_out (Broadcast m) (s\<lparr>lastMessages := kept, storage := Some kept\<rparr>)"
    then obtain m kept where e: "snd (handleBroadcast parse now req s) =
       fan_out (Broadcast m) (s\<lparr>lastMessages := kept, storage := Some kept\<rparr>)"
      by blast
    from fan_out_subset [of "Broadcast m" "s\<lparr>lastMessages := kept, storage := Some kept\<rparr>"]
    have "controllers (fan_out (Broadcast m) (s\<lparr>lastMessages := kept, storage := Some kept\<rparr>)) \<noteq> []
          \<longrightarrow> controllers s \<noteq> []"
      by auto
    with assms Publish show ?thesis by (simp add: e fan_out_fields)
  qed
next
  case (Tick now)
  have "controllers (fan_out x s) \<noteq> [] \<longrightarrow> controllers s \<noteq> []" for x
    using fan_out_subset [of x s] by auto
  with assms Tick show ?thesis by (auto simp: interval_callback_def fan_out_fields)
qed

lemma occupied_room_has_heartbeat:
  "controllers (run parse (constructor oid st rd) evs) \<noteq> [] \<longrightarrow>
   updateInterval (run parse (constructor oid st rd) evs) \<noteq> None"
proof (induction evs rule: rev_induct)
  case Nil
  show ?case by (simp add: run_Nil constructor_def)
next
  case (snoc ev evs)
  from step_heartbeat [OF snoc] show ?case by (simp add: run_snoc)
qed

text \<open>While no write fails, the timer is set exactly when the room is occupied.\<close>

lemma enqueueToController_steady:
  assumes "steady s"
  shows "steady (enqueueToController cid x s) \<and>
         controllers (enqueueToController cid x s) = controllers s"
proof (cases "cid \<in> set (controllers s)")
  case False
  with assms show ?thesis by (simp add: enqueueToController_unregistered)
next
  case True
  with assms have p: "c_queue (heap s cid) = []" "0 < c_max (heap s cid)"
    and c: "credit (heap s cid) = None"
    by (auto simp: steady_def list_all_iff)
  from enqueueToController_empty_queue [OF True p, of x] c
  have "enqueueToController cid x s =
     s\<lparr>heap := (heap s)(cid := (heap s cid)\<lparr>c_queue := [], written := written (heap s cid) @ [x]\<rparr>)\<rparr>"
    by simp
  with assms show ?thesis by (auto simp: steady_def list_all_iff)
qed

lemma fold_enqueue_steady:
  "steady s \<Longrightarrow>
   steady (fold (\<lambda>x. enqueueToController cid x) xs s) \<and>
   controllers (fold (\<lambda>x. enqueueToController cid x) xs s) = controllers s"
proof (induction xs arbitrary: s)
  case Nil
  then show ?case by simp
next
  case (Cons x xs)
  from enqueueToController_steady [OF Cons.prems, of cid x]
    Cons.IH [of "enqueueToController cid x s"]
  show ?case by simp
qed

lemma fan_out_steady:
  assumes "steady s"
  shows "steady (fan_out x s) \<and> controllers (fan_out x s) = controllers s"
proof -
  have "steady t \<Longrightarrow>
        steady (fold (\<lambda>cid. enqueueToController cid x) cs t) \<and>
        controllers (fold (\<lambda>cid. enqueueToController cid x) cs t) = controllers t" for cs t
  proof (induction cs arbitrary: t)
    case Nil
    then show ?case by simp
  next
    case (Cons d cs)
    from enqueueToController_steady [OF Cons.prems, of d x]
      Cons.IH [of "enqueueToController d x t"]
    show ?case by simp
  qed
  from this [OF assms] show ?thesis by (simp add: fan_out_def)
qed

lemma step_steady:
  assumes "steady s" and "reliable ev"
  shows "steady (step parse s ev)"
proof (cases ev)
  case (Subscribe cr)
  with assms(2) have cr: "cr = None" by simp
  let ?cid = "next_controller s"
  let ?s0 = "s\<lparr>heap := (heap s)(?cid := \<lparr>c_queue = [], c_max = 0, written = [], credit = None\<rparr>),
               next_controller := Suc ?cid\<rparr>"
  have fresh: "?cid \<notin> set (controllers s)"
    using assms(1) by (auto simp: steady_def list_all_iff)
  have r: "steady (registered ?cid ?s0)"
    using assms(1) fresh
    by (cases "controllers s")
       (auto simp: steady_def list_all_iff registered_def Let_def startPeriodicUpdate_def
          MAX_CLIENT_QUEUE_def)
  have a: "steady (enqueueToController ?cid Connected (registered ?cid ?s0))"
    using enqueueToController_steady [OF r] by simp
  have b: "steady (fold (\<lambda>x. enqueueToController ?cid x) xs (registered ?cid ?s0))" for xs
    using fold_enqueue_steady [OF r] by simp
  have "steady (snd (start ?cid ?s0))"
    by (cases "ready ?s0") (simp_all only: start_registered a b option.case snd_conv)
  with Subscribe cr show ?thesis by (simp add: handleSseConnection_snd)
next
  case (Unsubscribe cid)
  with assms(1) show ?thesis
    by (cases "removeAll cid (controllers s) = []")
       (auto simp: steady_def list_all_iff cancel_def Let_def stopPeriodicUpdate_def
          split: option.splits)
next
  case (Publish req now)
  from handleBroadcast_state [of parse now req s] show ?thesis
  proof
    assume "snd (handleBroadcast parse now req s) = s"
    with Publish assms(1) show ?thesis by simp
  next
    assume "\<exists>m kept. snd (handleBroadcast parse now req s) =
       fan_out (Broadcast m) (s\<lparr>lastMessages := kept, storage := Some kept\<rparr>)"
    then obtain m kept where e: "snd (handleBroadcast parse now req s) =
       fan_out (Broadcast m) (s\<lparr>lastMessages := kept, storage := Some kept\<rparr>)"
      by blast
    have "steady (s\<lparr>lastMessages := kept, storage := Some kept\<rparr>)"
      using assms(1) by (simp add: steady_def)
    from fan_out_steady [OF this] Publish show ?thesis by (simp add: e)
  qed
next
  case (Tick now)
  from fan_out_steady [OF assms(1)] Tick assms(1) show ?thesis
    by (simp add: interval_callback_def)
qed

lemma heartbeat_iff_occupied_without_failures:
  assumes "list_all reliable evs"
  shows "(controllers (run parse (constructor oid st rd) evs) \<noteq> []) =
         (updateInterval (run parse (constructor oid st rd) evs) \<noteq> None)"
proof -
  have "steady (run parse (constructor oid st rd) evs)"
    using assms
  proof (induction evs rule: rev_induct)
    case Nil
    show ?case by (simp add: run_Nil steady_def constructor_def)
  next
    case (snoc ev evs)
    then show ?case by (simp add: run_snoc step_steady)
  qed
  then show ?thesis by (auto simp: steady_def)
qed

subsection \<open>Queues are drained at once\<close>

lemma drain_queue_never_failing:
  "credit c = None \<Longrightarrow>
   drain_queue c = (c\<lparr>c_queue := [], written := written c @ c_queue c\<rparr>, True)"
proof (induction c rule: drain_queue.induct)
  case (1 c)
  show ?case
  proof (cases "c_queue c")
    case Nil
    then show ?thesis by (simp add: drain_queue_Nil)
  next
    case (Cons x q)
    let ?c' = "c\<lparr>c_queue := q, written := written c @ [x]\<rparr>"
    have e: "controller_enqueue x (c\<lparr>c_queue := q\<rparr>) = Some ?c'"
      using "1.prems" by (simp add: controller_enqueue_def)
    have "drain_queue ?c' = (?c'\<lparr>c_queue := [], written := written ?c' @ c_queue ?c'\<rparr>, True)"
      using "1.prems" by (intro "1.IH" [OF Cons e]) simp
    then show ?thesis using Cons by (simp add: drain_queue_ok [OF Cons e])
  qed
qed

lemma enqueueToController_never_failing:
  assumes "cid \<in> set (controllers s)"
    and "length (c_queue (heap s cid)) \<le> c_max (heap s cid)"
    and "credit (heap s cid) = None"
  shows "enqueueToController cid x s =
     s\<lparr>heap := (heap s)(cid := (heap s cid)\<lparr>c_queue := [],
          written := written (heap s cid) @
            last_n (c_max (heap s cid)) (c_queue (heap s cid) @ [x])\<rparr>)\<rparr>"
proof -
  let ?c = "push_chunk x (heap s cid)"
  have c: "credit ?c = None" using assms(3) by (simp add: push_chunk_fields)
  have p: "?c = (heap s cid)\<lparr>c_queue := last_n (c_max (heap s cid)) (c_queue (heap s cid) @ [x])\<rparr>"
    using push_chunk_queue [OF assms(2), of x] by (simp add: push_chunk_def Let_def)
  have "drain_queue ?c = (?c\<lparr>c_queue := [], written := written ?c @ c_queue ?c\<rparr>, True)"
    by (rule drain_queue_never_failing [OF c])
  then have d: "drain_queue ?c =
     ((heap s cid)\<lparr>c_queue := [],
        written := written (heap s cid) @
          last_n (c_max (heap s cid)) (c_queue (heap s cid) @ [x])\<rparr>, True)"
    by (simp add: p)
  show ?thesis
    using assms(1) by (simp add: enqueueToController_def tryDrainQueue_def d)
qed

lemma enqueueToController_empty:
  assumes "queues_empty s"
  shows "queues_empty (enqueueToController cid x s)"
proof (cases "cid \<in> set (controllers s)")
  case False
  with assms show ?thesis by (simp add: enqueueToController_unregistered)
next
  case True
  from assms have b: "queues_bounded s" and e: "\<forall>c. c_queue (heap s c) = []"
    by (simp_all add: queues_empty_def)
  from b True have m: "0 < c_max (heap s cid)"
    by (auto simp: queues_bounded_def MAX_CLIENT_QUEUE_def)
  from e have q: "c_queue (heap s cid) = []" by simp
  have "\<forall>c. c_queue (heap (enqueueToController cid x s) c) = []"
    using e by (auto simp: enqueueToController_empty_queue [OF True q m]
        split: option.splits nat.splits)
  with enqueueToController_bounded [OF b] show ?thesis by (simp add: queues_empty_def)
qed

lemma fan_out_empty: "queues_empty s \<Longrightarrow> queues_empty (fan_out x s)"
proof -
  have "queues_empty t \<Longrightarrow> queues_empty (fold (\<lambda>cid. enqueueToController cid x) cs t)" for cs t
    by (induction cs arbitrary: t) (simp_all add: enqueueToController_empty)
  then show "queues_empty s \<Longrightarrow> queues_empty (fan_out x s)"
    by (simp add: fan_out_def)
qed

lemma fold_enqueue_empty:
  "queues_empty s \<Longrightarrow> queues_empty (fold (\<lambda>x. enqueueToController cid x) xs s)"
  by (induction xs arbitrary: s) (simp_all add: enqueueToController_empty)

lemma step_empty:
  assumes "queues_empty s"
  shows "queues_empty (step parse s ev)"
proof (cases ev)
  case (Subscribe cr)
  let ?cid = "next_controller s"
  let ?s0 = "s\<lparr>heap := (heap s)(?cid := \<lparr>c_queue = [], c_max = 0, written = [], credit = cr\<rparr>),
               next_controller := Suc ?cid\<rparr>"
  have r: "queues_empty (registered ?cid ?s0)"
    using assms
    by (auto simp: queues_empty_def queues_bounded_def registered_def Let_def
          startPeriodicUpdate_def)
  have a: "queues_empty (enqueueToController ?cid Connected (registered ?cid ?s0))"
    using r by (rule enqueueToController_empty)
  have b: "queues_empty (fold (\<lambda>x. enqueueToController ?cid x) xs (registered ?cid ?s0))" for xs
    using r by (rule fold_enqueue_empty)
  have "queues_empty (snd (start ?cid ?s0))"
    by (cases "ready ?s0") (simp_all only: start_registered a b option.case snd_conv)
  with Subscribe show ?thesis by (simp add: handleSseConnection_snd)
next
  case (Unsubscribe cid)
  with assms show ?thesis
    by (auto simp: cancel_def Let_def stopPeriodicUpdate_def queues_empty_def queues_bounded_def
          split: option.splits)
next
  case (Publish req now)
  from handleBroadcast_state [of parse now req s] show ?thesis
  proof
    assume "snd (handleBroadcast parse now req s) = s"
    with Publish assms show ?thesis by simp
  next
    assume "\<exists>m kept. snd (handleBroadcast parse now req s) =
       fan_out (Broadcast m) (s\<lparr>lastMessages := kept, storage := Some kept\<rparr>)"
    then obtain m kept where e: "snd (handleBroadcast parse now req s) =
       fan_out (Broadcast m) (s\<lparr>lastMessages := kept, storage := Some kept\<rparr>)"
      by blast
    have "queues_empty (s\<lparr>lastMessages := kept, storage := Some kept\<rparr>)"
      using assms by (simp add: queues_empty_def queues_bounded_def)
    from fan_out_empty [OF this] Publish show ?thesis by (simp add: e)
  qed
next
  case (Tick now)
  with assms show ?thesis by (simp add: interval_callback_def fan_out_empty)
qed

lemma run_empty: "queues_empty (run parse (constructor oid st rd) evs)"
proof (induction evs rule: rev_induct)
  case Nil
  show ?case by (simp add: run_Nil queues_empty_def queues_bounded_def constructor_def)
next
  case (snoc ev evs)
  then show ?case by (simp add: run_snoc step_empty)
qed

section \<open>The claims\<close>

text \<open>
  C1. The claim: the heartbeat timer is set exactly when the set of registered controllers
  is not empty, after every sequence of connections, cancellations and removals on a write
  failure. The \<^verbatim>\<open>cancel\<close> callback stops the timer when it removes the last
  controller; \<^verbatim>\<open>tryDrainQueue\<close> removes a controller whose sink throws and does not
  look at the timer. In the run below a client connects to an empty room through a sink
  that accepts one write, the confirmation, and a broadcast follows: its write throws, the
  controller is removed, the set is empty and timer 1 is still set. The next connection
  finds a set of size one and sets timer 2 beside timer 1. What holds on every run is
  \<open>occupied_room_has_heartbeat\<close>, and the equivalence holds while no write fails
  (\<open>heartbeat_iff_occupied_without_failures\<close>).
\<close>

theorem heartbeat_survives_sink_failure:
  "controllers (run JSON_parse (constructor ''room'' None None)
      [Subscribe (Some 1),
       Publish \<lparr>content_type = Some ''text/plain'', bodyText = ''hello''\<rparr> ''t01'']) = [] \<and>
   updateInterval (run JSON_parse (constructor ''room'' None None)
      [Subscribe (Some 1),
       Publish \<lparr>content_type = Some ''text/plain'', bodyText = ''hello''\<rparr> ''t01'']) = Some 1 \<and>
   timers (run JSON_parse (constructor ''room'' None None)
      [Subscribe (Some 1),
       Publish \<lparr>content_type = Some ''text/plain'', bodyText = ''hello''\<rparr> ''t01'']) = [1] \<and>
   controllers (run JSON_parse (constructor ''room'' None None)
      [Subscribe (Some 1),
       Publish \<lparr>content_type = Some ''text/plain'', bodyText = ''hello''\<rparr> ''t01'',
       Subscribe None]) = [1] \<and>
   timers (run JSON_parse (constructor ''room'' None None)
      [Subscribe (Some 1),
       Publish \<lparr>content_type = Some ''text/plain'', bodyText = ''hello''\<rparr> ''t01'',
       Subscribe None]) = [1, 2]"
  by code_simp

text \<open>
  C2, as amended. When the content type includes \<^verbatim>\<open>application/json\<close>, the body is
  not blank (something is left of it after trimming white space) and the parser rejects
  it, \<^verbatim>\<open>handleBroadcast\<close> answers with status 400, \<^verbatim>\<open>success: false\<close> and the
  message of the parse error, and the coordinator's state is the one it had: nothing is
  appended, stored or written to a client.
\<close>

theorem publish_malformed_json:
  assumes "content_type req = Some ct" and "str_includes ct ''application/json''"
    and "trim (bodyText req) \<noteq> []" and "parse (bodyText req) = Inl e"
  shows "handleBroadcast parse now req s =
     (\<lparr>status = 400,
       headers = corsHeaders [(''Content-Type'', ''application/json'')],
       body = JObject [(''success'', JBool False), (''error'', JString (error_message e))]\<rparr>,
      s)"
  using assms by (simp add: handleBroadcast_def message_of_request_json)

text \<open>The body \<^verbatim>\<open>{bad json\<close> of the specification's scenario.\<close>

theorem publish_malformed_json_witness:
  "content_type \<lparr>content_type = Some ''application/json'', bodyText = ''{bad json''\<rparr>
     = Some ''application/json'' \<and>
   str_includes ''application/json'' ''application/json'' \<and>
   trim (bodyText \<lparr>content_type = Some ''application/json'', bodyText = ''{bad json''\<rparr>) \<noteq> [] \<and>
   JSON_parse (bodyText \<lparr>content_type = Some ''application/json'', bodyText = ''{bad json''\<rparr>)
     = Inl (SyntaxError ''Unexpected token in JSON'') \<and>
   handleBroadcast JSON_parse ''2025-06-26T12:01:00.000Z''
     \<lparr>content_type = Some ''application/json'', bodyText = ''{bad json''\<rparr>
     (constructor ''room'' None None) =
     (\<lparr>status = 400,
       headers = corsHeaders [(''Content-Type'', ''application/json'')],
       body = JObject [(''success'', JBool False),
                       (''error'', JString ''Unexpected token in JSON'')]\<rparr>,
      constructor ''room'' None None)"
proof -
  let ?req = "\<lparr>content_type = Some ''application/json'', bodyText = ''{bad json''\<rparr>"
  have 1: "content_type ?req = Some ''application/json''" by simp
  have 2: "str_includes ''application/json'' ''application/json''" by simp
  have 3: "trim (bodyText ?req) \<noteq> []" by (simp add: trim_def is_js_space_def)
  have 4: "JSON_parse (bodyText ?req) = Inl (SyntaxError ''Unexpected token in JSON'')"
    by code_simp
  from publish_malformed_json [where parse = JSON_parse and req = ?req, OF 1 2 3 4] 1 2 3 4 show ?thesis by simp
qed

text \<open>
  The claim as stated asks this of every body that is not empty. A body of one space is
  not empty and is not JSON, and the request succeeds: the code tests the trimmed body, takes
  the blank one for an empty broadcast, stores the placeholder and answers with status 200.
\<close>

theorem publish_blank_body_counterexample:
  "bodyText \<lparr>content_type = Some ''application/json'', bodyText = '' ''\<rparr> \<noteq> [] \<and>
   JSON_parse (bodyText \<lparr>content_type = Some ''application/json'', bodyText = '' ''\<rparr>)
     = Inl (SyntaxError ''Unexpected token in JSON'') \<and>
   handleBroadcast JSON_parse ''2025-06-26T12:01:00.000Z''
     \<lparr>content_type = Some ''application/json'', bodyText = '' ''\<rparr>
     (constructor ''room'' None None) =
     (\<lparr>status = 200,
       headers = corsHeaders [(''Content-Type'', ''application/json'')],
       body = JObject [(''success'', JBool True),
                       (''message'', JString ''Broadcast sent successfully'')]\<rparr>,
      (constructor ''room'' None None)
        \<lparr>lastMessages := [JObject [(''message'', JString ''Empty broadcast''),
                                    (''timestamp'', JString ''2025-06-26T12:01:00.000Z'')]],
         storage := Some [JObject [(''message'', JString ''Empty broadcast''),
                                   (''timestamp'', JString ''2025-06-26T12:01:00.000Z'')]]\<rparr>)"
proof -
  have 1: "JSON_parse '' '' = Inl (SyntaxError ''Unexpected token in JSON'')"
    by code_simp
  have 2: "trim '' '' = []" by (simp add: trim_def is_js_space_def)
  show ?thesis
    by (simp add: 1 2 handleBroadcast_def message_of_request_def Let_def fan_out_def
          constructor_def MAX_MESSAGES_def)
qed

text \<open>
  C3, as amended. The storage read of the constructor was fulfilled. The room has the
  history \<open>old @ published parse evs\<close>: the messages that earlier lives of the
  coordinator broadcast, of which the storage kept the last ten, and the messages of the
  successful broadcasts of the run \<open>evs\<close> since the read. A connection made
  then writes to its own sink the confirmation followed by the last ten messages of the
  history, oldest first, all of them when they are ten or fewer (\<open>deliver cr\<close> cuts the
  series where a sink of bounded credit fails; a sink that never fails receives all of it);
  no other controller changes; the callback ends normally; and whatever happens afterwards
  is written after the replay.
\<close>

theorem subscribe_replays_history:
  assumes "ready s0 = None" and "lastMessages s0 = last_n MAX_MESSAGES old"
  shows "case handleSseConnection cr (run parse s0 evs) of
           ((cid, r), s') \<Rightarrow>
             r = Inr () \<and>
             written (heap s' cid) =
               deliver cr (Connected #
                 map Broadcast (last_n MAX_MESSAGES (old @ published parse evs))) \<and>
             (\<forall>c. c \<noteq> cid \<longrightarrow> heap s' c = heap (run parse s0 evs) c) \<and>
             (\<forall>evs'. \<exists>live.
                written (heap (run parse s' evs') cid) = written (heap s' cid) @ live)"
proof -
  let ?s = "run parse s0 evs"
  have r: "ready ?s = None" using assms(1) by (simp add: run_ready)
  have "length (lastMessages s0) \<le> MAX_MESSAGES"
    using assms(2) by (simp add: length_last_n)
  then have "lastMessages ?s = last_n MAX_MESSAGES (lastMessages s0 @ published parse evs)"
    by (rule run_lastMessages)
  then have l: "lastMessages ?s = last_n MAX_MESSAGES (old @ published parse evs)"
    using assms(2) by (simp add: last_n_append)
  obtain cid r s' where h: "handleSseConnection cr ?s = ((cid, r), s')"
    by (metis surj_pair)
  from handleSseConnection_written [OF r, of cr] h l
  have 1: "r = Inr ()" "cid < next_controller s'"
    "written (heap s' cid) =
       deliver cr (Connected # map Broadcast (last_n MAX_MESSAGES (old @ published parse evs)))"
    "\<forall>c. c \<noteq> cid \<longrightarrow> heap s' c = heap ?s c"
    by auto
  from run_grows [OF 1(2)]
  have "\<forall>evs'. \<exists>live. written (heap (run parse s' evs') cid) = written (heap s' cid) @ live"
    by blast
  with 1 h show ?thesis by simp
qed

text \<open>Eleven broadcasts, then a connection through a sink that never fails: the ten most
  recent messages are replayed.\<close>

theorem subscribe_replays_history_witness:
  "ready (constructor ''room'' None None) = None \<and>
   lastMessages (constructor ''room'' None None) = last_n MAX_MESSAGES [] \<and>
   (case handleSseConnection None
      (run JSON_parse (constructor ''room'' None None)
        (map (Publish \<lparr>content_type = Some ''text/plain'', bodyText = ''hello''\<rparr>)
          [''t01'', ''t02'', ''t03'', ''t04'', ''t05'', ''t06'', ''t07'', ''t08'', ''t09'', ''t10'', ''t11''])) of
      ((cid, r), s') \<Rightarrow>
        r = Inr () \<and>
        written (heap s' cid) =
          Connected # map (\<lambda>t. Broadcast (JObject [(''message'', JString ''Non-JSON broadcast''),
                                                     (''timestamp'', JString t)]))
            [''t02'', ''t03'', ''t04'', ''t05'', ''t06'', ''t07'', ''t08'', ''t09'', ''t10'', ''t11''])"
proof -
  have h1: "ready (constructor ''room'' None None) = None"
    by (simp add: constructor_def)
  have h2: "lastMessages (constructor ''room'' None None) = last_n MAX_MESSAGES []"
    by (simp add: constructor_def last_n_def)
  have m: "message_of_request JSON_parse t \<lparr>content_type = Some ''text/plain'', bodyText = ''hello''\<rparr> =
        Inr (JObject [(''message'', JString ''Non-JSON broadcast''), (''timestamp'', JString t)])" for t
    by (simp add: message_of_request_def)
  from subscribe_replays_history [OF h1 h2, of None JSON_parse] h1 h2 show ?thesis
    by (simp add: split_def m last_n_def MAX_MESSAGES_def deliver_def)
qed

text \<open>
  The claim as stated is of every room. After a rejected read the broadcasts still succeed
  and fill the buffer, and \<^verbatim>\<open>start\<close> throws at \<^verbatim>\<open>await this.ready\<close> before the
  replay loop: with three messages in the buffer a connection receives the confirmation
  only.
\<close>

theorem subscribe_after_rejected_read_counterexample:
  "published JSON_parse
     (map (Publish \<lparr>content_type = Some ''text/plain'', bodyText = ''hello''\<rparr>)
        [''t01'', ''t02'', ''t03'']) =
     map (\<lambda>t. JObject [(''message'', JString ''Non-JSON broadcast''), (''timestamp'', JString t)])
        [''t01'', ''t02'', ''t03''] \<and>
   lastMessages (run JSON_parse (constructor ''room'' None (Some (StorageError ''read failed'')))
     (map (Publish \<lparr>content_type = Some ''text/plain'', bodyText = ''hello''\<rparr>)
        [''t01'', ''t02'', ''t03''])) =
     map (\<lambda>t. JObject [(''message'', JString ''Non-JSON broadcast''), (''timestamp'', JString t)])
        [''t01'', ''t02'', ''t03''] \<and>
   fst (handleSseConnection None
     (run JSON_parse (constructor ''room'' None (Some (StorageError ''read failed'')))
       (map (Publish \<lparr>content_type = Some ''text/plain'', bodyText = ''hello''\<rparr>)
          [''t01'', ''t02'', ''t03'']))) = (0, Inl (StorageError ''read failed'')) \<and>
   written (heap (snd (handleSseConnection None
     (run JSON_parse (constructor ''room'' None (Some (StorageError ''read failed'')))
       (map (Publish \<lparr>content_type = Some ''text/plain'', bodyText = ''hello''\<rparr>)
          [''t01'', ''t02'', ''t03''])))) 0) = [Connected]"
  by code_simp

text \<open>
  C4. Along every run of a coordinator that starts with at most ten messages in its replay
  buffer, the buffer holds the last ten of its initial messages followed by the messages of
  the successful broadcasts, in arrival order, and all of them when they are fewer: its
  length is the minimum of their number and ten.
\<close>

theorem replay_buffer_fifo:
  assumes "length (lastMessages s) \<le> MAX_MESSAGES"
  shows "lastMessages (run parse s evs) =
           last_n MAX_MESSAGES (lastMessages s @ published parse evs) \<and>
         length (lastMessages (run parse s evs)) =
           min (length (lastMessages s @ published parse evs)) MAX_MESSAGES"
  using run_lastMessages [OF assms, of parse evs] by (simp add: length_last_n)

text \<open>Eleven broadcasts to a new room: the first one is evicted.\<close>

theorem replay_buffer_fifo_witness:
  "length (lastMessages (constructor ''room'' None None)) \<le> MAX_MESSAGES \<and>
   lastMessages (run JSON_parse (constructor ''room'' None None)
     (map (Publish \<lparr>content_type = Some ''text/plain'', bodyText = ''hello''\<rparr>)
        [''t01'', ''t02'', ''t03'', ''t04'', ''t05'', ''t06'', ''t07'', ''t08'', ''t09'', ''t10'', ''t11''])) =
     map (\<lambda>t. JObject [(''message'', JString ''Non-JSON broadcast''), (''timestamp'', JString t)])
        [''t02'', ''t03'', ''t04'', ''t05'', ''t06'', ''t07'', ''t08'', ''t09'', ''t10'', ''t11'']"
proof -
  have h: "length (lastMessages (constructor ''room'' None None)) \<le> MAX_MESSAGES"
    by (simp add: constructor_def)
  have m: "message_of_request JSON_parse t \<lparr>content_type = Some ''text/plain'', bodyText = ''hello''\<rparr> =
        Inr (JObject [(''message'', JString ''Non-JSON broadcast''), (''timestamp'', JString t)])" for t
    by (simp add: message_of_request_def)
  from replay_buffer_fifo [OF h, of JSON_parse] h show ?thesis
    by (simp add: m constructor_def last_n_def MAX_MESSAGES_def)
qed

text \<open>
  C5. The claim: a successful broadcast request is answered with the stored message. The
  README documents the answer with the message under \<^verbatim>\<open>data\<close>, and the other variant
  of the worker answers so; \<^verbatim>\<open>handleBroadcast\<close> of \<^verbatim>\<open>src/worker.js\<close> stores the
  message and answers with \<^verbatim>\<open>success\<close> and a fixed text only.
\<close>

theorem publish_response_omits_message:
  "handleBroadcast JSON_parse ''2025-06-26T12:01:00.000Z''
     \<lparr>content_type = Some ''application/json'', bodyText = ''{\"message\":\"hi\"}''\<rparr>
     (constructor ''room'' None None) =
     (\<lparr>status = 200,
       headers = corsHeaders [(''Content-Type'', ''application/json'')],
       body = JObject [(''success'', JBool True),
                       (''message'', JString ''Broadcast sent successfully'')]\<rparr>,
      (constructor ''room'' None None)
        \<lparr>lastMessages := [JObject [(''message'', JString ''hi''),
                                    (''timestamp'', JString ''2025-06-26T12:01:00.000Z'')]],
         storage := Some [JObject [(''message'', JString ''hi''),
                                   (''timestamp'', JString ''2025-06-26T12:01:00.000Z'')]]\<rparr>) \<and>
   body (handleBroadcast_part000 JSON_parse ''2025-06-26T12:01:00.000Z''
     \<lparr>content_type = Some ''application/json'', bodyText = ''{\"message\":\"hi\"}''\<rparr>) =
     JObject [(''success'', JBool True),
              (''message'', JString ''Broadcast received successfully''),
              (''data'', JObject [(''message'', JString ''hi''),
                                  (''timestamp'', JString ''2025-06-26T12:01:00.000Z'')])]"
proof -
  have 1: "JSON_parse ''{\"message\":\"hi\"}'' = Inr (JObject [(''message'', JString ''hi'')])"
    by code_simp
  have 2: "trim ''{\"message\":\"hi\"}'' \<noteq> []" by (simp add: trim_def is_js_space_def)
  show ?thesis
    by (simp add: 1 2 handleBroadcast_def handleBroadcast_part000_def message_of_request_def
          Let_def fan_out_def constructor_def MAX_MESSAGES_def)
qed

text \<open>
  C6, as amended. When the storage read of the constructor fails, the replay buffer is
  empty, and the failure is not handled: the promise \<^verbatim>\<open>ready\<close> stays rejected for the
  life of the coordinator, and the \<^verbatim>\<open>start\<close> callback of every connection registers
  the controller, writes the confirmation (the controller stays registered unless that
  write fails), and then ends rejected with the error of the read at
  \<^verbatim>\<open>await this.ready\<close>, before any replay.
\<close>

theorem load_failure:
  "lastMessages (constructor oid st (Some e)) = [] \<and>
   ready (run parse (constructor oid st (Some e)) evs) = Some e \<and>
   (case handleSseConnection cr (run parse (constructor oid st (Some e)) evs) of
      ((cid, r), s') \<Rightarrow>
        r = Inl e \<and>
        cid \<in> set (controllers s') = (cr \<noteq> Some 0) \<and>
        written (heap s' cid) = deliver cr [Connected] \<and>
        lastMessages s' = lastMessages (run parse (constructor oid st (Some e)) evs))"
proof -
  have 1: "lastMessages (constructor oid st (Some e)) = []"
    and 2: "ready (constructor oid st (Some e)) = Some e"
    by (simp_all add: constructor_def)
  have 3: "ready (run parse (constructor oid st (Some e)) evs) = Some e"
    using 2 by (simp add: run_ready)
  from handleSseConnection_rejected [OF 3, of cr] 1 3 show ?thesis by simp
qed

text \<open>The claim has the connection succeed with an empty replay. With a message in the
  storage and a failing read, the buffer is empty and the callback ends with the error.\<close>

theorem subscribe_after_failed_load_counterexample:
  "lastMessages (constructor ''room'' (Some [JObject [(''message'', JString ''hi'')]])
      (Some (StorageError ''read failed''))) = [] \<and>
   fst (handleSseConnection None
      (constructor ''room'' (Some [JObject [(''message'', JString ''hi'')]])
         (Some (StorageError ''read failed'')))) =
     (0, Inl (StorageError ''read failed''))"
  by (simp add: constructor_def handleSseConnection_def start_def Let_def
        enqueueToController_fields startPeriodicUpdate_def)

text \<open>
  C7, as amended. When a JSON body parses to an object or an array, the request succeeds
  and the stored message has a timestamp: the one the publisher supplied when that value
  is truthy, in which case the message is stored as it was parsed, and the coordinator's
  clock reading when the publisher supplied none or a falsy one (\<^verbatim>\<open>null\<close>,
  \<^verbatim>\<open>false\<close>, \<^verbatim>\<open>0\<close>, the empty string).
\<close>

theorem publish_timestamp:
  assumes "content_type req = Some ct" and "str_includes ct ''application/json''"
    and "trim (bodyText req) \<noteq> []" and "parse (bodyText req) = Inr p"
    and "\<not> is_primitive p"
  shows "\<exists>m ts. message_of_request parse now req = Inr m \<and>
           get_timestamp p = Inr ts \<and>
           get_timestamp m =
             Inr (Some (case ts of None \<Rightarrow> JString now
                        | Some v \<Rightarrow> if truthy v then v else JString now)) \<and>
           ((case ts of None \<Rightarrow> False | Some v \<Rightarrow> truthy v) \<longrightarrow> m = p) \<and>
           last (lastMessages (snd (handleBroadcast parse now req s))) = m"
proof -
  from assms(5) obtain ts where ts: "get_timestamp p = Inr ts"
    by (cases p) simp_all
  have "\<exists>m. (if b then Inr p else set_timestamp p (JString now)) = Inr m" for b
    using assms(5) by (cases p) auto
  then obtain m where m:
    "(if (case ts of None \<Rightarrow> False | Some v \<Rightarrow> truthy v) then Inr p
      else set_timestamp p (JString now)) = Inr m"
    by blast
  have mr: "message_of_request parse now req = Inr m"
    using assms(1-4) ts m by (simp add: message_of_request_json)
  from stamped_timestamp [OF ts m] handleBroadcast_stores [OF mr, of s] mr ts m
  show ?thesis by (auto split: if_splits)
qed

text \<open>A supplied timestamp is kept.\<close>

theorem publish_timestamp_witness:
  "content_type \<lparr>content_type = Some ''application/json'',
       bodyText = ''{\"timestamp\":\"2024-01-01T00:00:00.000Z\",\"message\":\"hi\"}''\<rparr>
     = Some ''application/json'' \<and>
   str_includes ''application/json'' ''application/json'' \<and>
   trim (bodyText \<lparr>content_type = Some ''application/json'',
       bodyText = ''{\"timestamp\":\"2024-01-01T00:00:00.000Z\",\"message\":\"hi\"}''\<rparr>) \<noteq> [] \<and>
   JSON_parse (bodyText \<lparr>content_type = Some ''application/json'',
       bodyText = ''{\"timestamp\":\"2024-01-01T00:00:00.000Z\",\"message\":\"hi\"}''\<rparr>)
     = Inr (JObject [(''timestamp'', JString ''2024-01-01T00:00:00.000Z''),
                     (''message'', JString ''hi'')]) \<and>
   \<not> is_primitive (JObject [(''timestamp'', JString ''2024-01-01T00:00:00.000Z''),
                            (''message'', JString ''hi'')]) \<and>
   last (lastMessages (snd (handleBroadcast JSON_parse ''2025-06-26T12:01:00.000Z''
       \<lparr>content_type = Some ''application/json'',
         bodyText = ''{\"timestamp\":\"2024-01-01T00:00:00.000Z\",\"message\":\"hi\"}''\<rparr>
       (constructor ''room'' None None)))) =
     JObject [(''timestamp'', JString ''2024-01-01T00:00:00.000Z''), (''message'', JString ''hi'')]"
proof -
  let ?req = "\<lparr>content_type = Some ''application/json'',
       bodyText = ''{\"timestamp\":\"2024-01-01T00:00:00.000Z\",\"message\":\"hi\"}''\<rparr>"
  let ?p = "JObject [(''timestamp'', JString ''2024-01-01T00:00:00.000Z''),
                     (''message'', JString ''hi'')]"
  have 1: "content_type ?req = Some ''application/json''" by simp
  have 2: "str_includes ''application/json'' ''application/json''" by simp
  have 3: "trim (bodyText ?req) \<noteq> []" by (simp add: trim_def is_js_space_def)
  have 4: "JSON_parse (bodyText ?req) = Inr ?p" by code_simp
  have 5: "\<not> is_primitive ?p" by simp
  from publish_timestamp [where parse = JSON_parse and req = ?req, OF 1 2 3 4 5,
      of "''2025-06-26T12:01:00.000Z''" "constructor ''room'' None None"]
  have "last (lastMessages (snd (handleBroadcast JSON_parse ''2025-06-26T12:01:00.000Z'' ?req
       (constructor ''room'' None None)))) = ?p"
    by auto
  with 1 2 3 4 5 show ?thesis by simp
qed

text \<open>The claim has a supplied empty string kept as well; \<^verbatim>\<open>!message.timestamp\<close>
  holds of it and the clock reading replaces it.\<close>

theorem publish_empty_timestamp_counterexample:
  "JSON_parse ''{\"timestamp\":\"\"}'' = Inr (JObject [(''timestamp'', JString [])]) \<and>
   lastMessages (snd (handleBroadcast JSON_parse ''2025-06-26T12:01:00.000Z''
       \<lparr>content_type = Some ''application/json'', bodyText = ''{\"timestamp\":\"\"}''\<rparr>
       (constructor ''room'' None None))) =
     [JObject [(''timestamp'', JString ''2025-06-26T12:01:00.000Z'')]]"
proof -
  have 1: "JSON_parse ''{\"timestamp\":\"\"}'' = Inr (JObject [(''timestamp'', JString [])])"
    by code_simp
  have 2: "trim ''{\"timestamp\":\"\"}'' \<noteq> []" by (simp add: trim_def is_js_space_def)
  show ?thesis
    by (simp add: 1 2 handleBroadcast_def message_of_request_def Let_def fan_out_fields
          constructor_def MAX_MESSAGES_def)
qed

text \<open>
  C8. \<^verbatim>\<open>enqueueToController\<close> pushes and drains at once, so along every run every client
  queue is empty between two operations, hence never longer than 100 chunks, and a
  registered controller carries the bound 100. In a run, an enqueue on a registered
  controller whose sink never throws writes the chunk to the sink and leaves the queue
  empty: the newest chunk is never dropped. In any state, an enqueue on such a controller
  that holds pending chunks within its bound writes the last chunks of the pending ones
  followed by the new one, as many as the bound, in order, and leaves the queue empty: of a
  full queue the oldest chunk is dropped. Pushing a series of chunks with no drain in
  between, as lines 164 to 167 do, leaves the last chunks of the queue and the series, as
  many as the bound. On a controller that is not registered \<^verbatim>\<open>enqueueToController\<close>
  changes nothing.
\<close>

theorem client_queue_bound:
  "c_queue (heap (run parse (constructor oid st rd) evs) c) = [] \<and>
   length (c_queue (heap (run parse (constructor oid st rd) evs) c)) \<le> MAX_CLIENT_QUEUE \<and>
   (c \<in> set (controllers (run parse (constructor oid st rd) evs)) \<longrightarrow>
      c_max (heap (run parse (constructor oid st rd) evs) c) = MAX_CLIENT_QUEUE) \<and>
   (c \<in> set (controllers (run parse (constructor oid st rd) evs)) \<and>
    credit (heap (run parse (constructor oid st rd) evs) c) = None \<longrightarrow>
      enqueueToController c x (run parse (constructor oid st rd) evs) =
        (run parse (constructor oid st rd) evs)
          \<lparr>heap := (heap (run parse (constructor oid st rd) evs))
             (c := (heap (run parse (constructor oid st rd) evs) c)\<lparr>c_queue := [],
                written := written (heap (run parse (constructor oid st rd) evs) c) @ [x]\<rparr>)\<rparr>) \<and>
   (cid \<in> set (controllers s) \<and> length (c_queue (heap s cid)) \<le> c_max (heap s cid) \<and>
    credit (heap s cid) = None \<longrightarrow>
      enqueueToController cid x s =
        s\<lparr>heap := (heap s)(cid := (heap s cid)\<lparr>c_queue := [],
             written := written (heap s cid) @
               last_n (c_max (heap s cid)) (c_queue (heap s cid) @ [x])\<rparr>)\<rparr>) \<and>
   (length (c_queue k) \<le> c_max k \<longrightarrow>
      c_queue (fold push_chunk xs k) = last_n (c_max k) (c_queue k @ xs)) \<and>
   (cid \<notin> set (controllers s) \<longrightarrow> enqueueToController cid x s = s)"
proof -
  let ?R = "run parse (constructor oid st rd) evs"
  have "queues_empty ?R" by (rule run_empty)
  then have e: "c_queue (heap ?R c) = []"
    and m: "c \<in> set (controllers ?R) \<longrightarrow> c_max (heap ?R c) = MAX_CLIENT_QUEUE"
    by (auto simp: queues_empty_def queues_bounded_def)
  have "enqueueToController c x ?R =
        ?R\<lparr>heap := (heap ?R)(c := (heap ?R c)\<lparr>c_queue := [],
             written := written (heap ?R c) @ [x]\<rparr>)\<rparr>"
    if r: "c \<in> set (controllers ?R)" and n: "credit (heap ?R c) = None"
  proof -
    have l: "length (c_queue (heap ?R c)) \<le> c_max (heap ?R c)" using e by simp
    have "last_n (c_max (heap ?R c)) (c_queue (heap ?R c) @ [x]) = [x]"
      using e m r by (simp add: last_n_def MAX_CLIENT_QUEUE_def)
    with enqueueToController_never_failing [OF r l n, of x] show ?thesis by simp
  qed
  with e m show ?thesis
    by (simp add: fold_push_chunk enqueueToController_unregistered
          enqueueToController_never_failing)
qed

text \<open>A connected client receives a chunk; the same client with 100 chunks pending
  receives the last 99 of them and the new one; 101 chunks pushed onto an empty queue; an
  address that was never registered.\<close>

theorem client_queue_bound_witness:
  "0 \<in> set (controllers (run JSON_parse (constructor ''room'' None None) [Subscribe None])) \<and>
   credit (heap (run JSON_parse (constructor ''room'' None None) [Subscribe None]) 0) = None \<and>
   c_max (heap (run JSON_parse (constructor ''room'' None None) [Subscribe None]) 0) =
     MAX_CLIENT_QUEUE \<and>
   c_queue (heap (run JSON_parse (constructor ''room'' None None) [Subscribe None]) 0) = [] \<and>
   written (heap (enqueueToController 0 (Update (JNumber 100))
       (run JSON_parse (constructor ''room'' None None) [Subscribe None])) 0) =
     [Connected, Update (JNumber 100)] \<and>
   length (map (\<lambda>i. Update (JNumber (of_nat i))) [0..<100]) \<le> MAX_CLIENT_QUEUE \<and>
   written (heap (enqueueToController 0 (Update (JNumber 100))
       ((run JSON_parse (constructor ''room'' None None) [Subscribe None])
          \<lparr>heap := (heap (run JSON_parse (constructor ''room'' None None) [Subscribe None]))
             (0 := (heap (run JSON_parse (constructor ''room'' None None) [Subscribe None]) 0)
                \<lparr>c_queue := map (\<lambda>i. Update (JNumber (of_nat i))) [0..<100]\<rparr>)\<rparr>)) 0) =
     Connected # map (\<lambda>i. Update (JNumber (of_nat i))) [1..<100] @ [Update (JNumber 100)] \<and>
   c_queue (heap (enqueueToController 0 (Update (JNumber 100))
       ((run JSON_parse (constructor ''room'' None None) [Subscribe None])
          \<lparr>heap := (heap (run JSON_parse (constructor ''room'' None None) [Subscribe None]))
             (0 := (heap (run JSON_parse (constructor ''room'' None None) [Subscribe None]) 0)
                \<lparr>c_queue := map (\<lambda>i. Update (JNumber (of_nat i))) [0..<100]\<rparr>)\<rparr>)) 0) = [] \<and>
   c_queue (fold push_chunk (map (\<lambda>i. Update (JNumber (of_nat i))) [0..<101])
              \<lparr>c_queue = [], c_max = MAX_CLIENT_QUEUE, written = [], credit = None\<rparr>) =
     map (\<lambda>i. Update (JNumber (of_nat i))) [1..<101] \<and>
   7 \<notin> set (controllers (constructor ''room'' None None)) \<and>
   enqueueToController 7 Connected (constructor ''room'' None None) = constructor ''room'' None None"
proof -
  let ?R = "run JSON_parse (constructor ''room'' None None) [Subscribe None]"
  let ?f = "\<lambda>i. Update (JNumber (of_nat i))"
  let ?S = "?R\<lparr>heap := (heap ?R)(0 := (heap ?R 0)\<lparr>c_queue := map ?f [0..<100]\<rparr>)\<rparr>"
  let ?k = "\<lparr>c_queue = [], c_max = MAX_CLIENT_QUEUE, written = [], credit = None\<rparr>"
  have r: "0 \<in> set (controllers ?R)" "credit (heap ?R 0) = None"
    "c_max (heap ?R 0) = MAX_CLIENT_QUEUE" "written (heap ?R 0) = [Connected]"
    by code_simp+
  have l: "length (map ?f [0..<100]) \<le> MAX_CLIENT_QUEUE"
    by (simp add: MAX_CLIENT_QUEUE_def)
  have d: "last_n MAX_CLIENT_QUEUE (map ?f [0..<100] @ [Update (JNumber 100)]) =
           map ?f [1..<100] @ [Update (JNumber 100)]"
    by (simp add: last_n_def MAX_CLIENT_QUEUE_def drop_map)
  have d': "last_n MAX_CLIENT_QUEUE (map ?f [0..<101]) = map ?f [1..<101]"
    by (simp add: last_n_def MAX_CLIENT_QUEUE_def drop_map)
  have e: "7 \<notin> set (controllers (constructor ''room'' None None))"
    by (simp add: constructor_def)
  note t = client_queue_bound [of JSON_parse "''room''" None None "[Subscribe None]" 0
      "Update (JNumber 100)" 0 ?S ?k "map ?f [0..<101]"]
  note u = client_queue_bound [of JSON_parse "''room''" None None "[Subscribe None]" 0
      Connected 7 "constructor ''room'' None None" ?k "map ?f [0..<101]"]
  have 1: "c_queue (heap ?R 0) = []" using t by simp
  have 2: "enqueueToController 0 (Update (JNumber 100)) ?R =
      ?R\<lparr>heap := (heap ?R)(0 := (heap ?R 0)\<lparr>c_queue := [],
           written := written (heap ?R 0) @ [Update (JNumber 100)]\<rparr>)\<rparr>"
    using t r by simp
  have 3: "enqueueToController 0 (Update (JNumber 100)) ?S =
      ?S\<lparr>heap := (heap ?S)(0 := (heap ?S 0)\<lparr>c_queue := [],
           written := written (heap ?S 0) @
             last_n (c_max (heap ?S 0)) (c_queue (heap ?S 0) @ [Update (JNumber 100)])\<rparr>)\<rparr>"
    using t r l by simp
  have 4: "c_queue (fold push_chunk (map ?f [0..<101]) ?k) = map ?f [1..<101]"
    using t d' by simp
  have 5: "enqueueToController 7 Connected (constructor ''room'' None None) =
           constructor ''room'' None None"
    using u e by simp
  show ?thesis
    unfolding 2 3 using r l 1 4 5 e d by simp
qed

text \<open>
  C9, as amended. \<^verbatim>\<open>stopPeriodicUpdate\<close> is idempotent: it cancels the timer of the
  stored handle, which is then no longer set, and clears the handle, and without a handle
  it changes nothing. \<^verbatim>\<open>startPeriodicUpdate\<close> has no guard: every
  call sets a new timer and stores its handle, so it leaves one timer only when none was
  set. The guard is at its call: \<^verbatim>\<open>start\<close> calls it when the set of controllers has
  one element after the addition.
\<close>

theorem heartbeat_start_stop:
  "stopPeriodicUpdate (stopPeriodicUpdate s) = stopPeriodicUpdate s \<and>
   updateInterval (stopPeriodicUpdate s) = None \<and>
   (updateInterval s = None \<longrightarrow> stopPeriodicUpdate s = s) \<and>
   (updateInterval s = Some t \<longrightarrow>
      timers (stopPeriodicUpdate s) = removeAll t (timers s) \<and>
      t \<notin> set (timers (stopPeriodicUpdate s))) \<and>
   updateInterval (startPeriodicUpdate s) = Some (next_timer s) \<and>
   timers (startPeriodicUpdate s) = timers s @ [next_timer s] \<and>
   (timers s = [] \<longrightarrow> timers (startPeriodicUpdate s) = [next_timer s]) \<and>
   timers (snd (start cid s)) =
     (if length (if cid \<in> set (controllers s) then controllers s else controllers s @ [cid]) = 1
      then timers s @ [next_timer s] else timers s)"
  by (simp add: stopPeriodicUpdate_def startPeriodicUpdate_def start_registered registered_def
        Let_def fold_enqueue_fields enqueueToController_fields split: option.splits)

text \<open>A new coordinator: stopping changes nothing, starting sets timer 1, stopping then
  cancels it, and stopping again changes nothing.\<close>

theorem heartbeat_start_stop_witness:
  "updateInterval (constructor ''room'' None None) = None \<and>
   stopPeriodicUpdate (constructor ''room'' None None) = constructor ''room'' None None \<and>
   timers (constructor ''room'' None None) = [] \<and>
   timers (startPeriodicUpdate (constructor ''room'' None None)) = [1] \<and>
   updateInterval (startPeriodicUpdate (constructor ''room'' None None)) = Some 1 \<and>
   timers (stopPeriodicUpdate (startPeriodicUpdate (constructor ''room'' None None))) = [] \<and>
   updateInterval (stopPeriodicUpdate (startPeriodicUpdate (constructor ''room'' None None))) = None \<and>
   stopPeriodicUpdate (stopPeriodicUpdate (startPeriodicUpdate (constructor ''room'' None None))) =
     stopPeriodicUpdate (startPeriodicUpdate (constructor ''room'' None None))"
proof -
  let ?s = "constructor ''room'' None None"
  have 1: "updateInterval ?s = None"
    and 2: "timers ?s = []"
    and 3: "next_timer ?s = 1"
    by (simp_all add: constructor_def)
  from heartbeat_start_stop [of ?s] 1 2 3
  have a: "stopPeriodicUpdate ?s = ?s" "timers (startPeriodicUpdate ?s) = [1]"
    "updateInterval (startPeriodicUpdate ?s) = Some 1"
    by simp_all
  from heartbeat_start_stop [of "startPeriodicUpdate ?s" 1] a
  have b: "timers (stopPeriodicUpdate (startPeriodicUpdate ?s)) = []"
    "updateInterval (stopPeriodicUpdate (startPeriodicUpdate ?s)) = None"
    "stopPeriodicUpdate (stopPeriodicUpdate (startPeriodicUpdate ?s)) =
     stopPeriodicUpdate (startPeriodicUpdate ?s)"
    by simp_all
  from 1 2 a b show ?thesis by simp
qed

text \<open>The claim has a second start change nothing. It sets timer 2 beside timer 1 and
  replaces the handle, which leaves timer 1 out of reach of \<^verbatim>\<open>clearInterval\<close>.\<close>

theorem start_twice_counterexample:
  "updateInterval (startPeriodicUpdate (constructor ''room'' None None)) = Some 1 \<and>
   timers (startPeriodicUpdate (constructor ''room'' None None)) = [1] \<and>
   updateInterval (startPeriodicUpdate (startPeriodicUpdate (constructor ''room'' None None)))
     = Some 2 \<and>
   timers (startPeriodicUpdate (startPeriodicUpdate (constructor ''room'' None None))) = [1, 2] \<and>
   startPeriodicUpdate (startPeriodicUpdate (constructor ''room'' None None)) \<noteq>
     startPeriodicUpdate (constructor ''room'' None None)"
proof -
  have "timers (startPeriodicUpdate (startPeriodicUpdate (constructor ''room'' None None))) \<noteq>
        timers (startPeriodicUpdate (constructor ''room'' None None))"
    by (simp add: startPeriodicUpdate_def constructor_def)
  then have "startPeriodicUpdate (startPeriodicUpdate (constructor ''room'' None None)) \<noteq>
     startPeriodicUpdate (constructor ''room'' None None)"
    by metis
  then show ?thesis by (simp add: startPeriodicUpdate_def constructor_def)
qed

text \<open>
  C10. When the content type includes \<^verbatim>\<open>application/json\<close>, the body is not blank
  (as no JSON text is) and parses to \<^verbatim>\<open>null\<close>, a boolean, a number or a string,
  \<^verbatim>\<open>handleBroadcast\<close> answers with status 400 and \<^verbatim>\<open>success: false\<close>, and the
  state is the one it had: reading \<^verbatim>\<open>timestamp\<close> of \<^verbatim>\<open>null\<close> throws, and so does
  creating the property on the other values.
\<close>

theorem publish_non_object_json:
  assumes "content_type req = Some ct" and "str_includes ct ''application/json''"
    and "trim (bodyText req) \<noteq> []" and "parse (bodyText req) = Inr p"
    and "is_primitive p"
  shows "\<exists>msg. handleBroadcast parse now req s =
     (\<lparr>status = 400,
       headers = corsHeaders [(''Content-Type'', ''application/json'')],
       body = JObject [(''success'', JBool False), (''error'', JString msg)]\<rparr>,
      s)"
  using assms
  by (cases p) (simp_all add: handleBroadcast_def message_of_request_json)

text \<open>The body \<^verbatim>\<open>null\<close>.\<close>

theorem publish_non_object_json_witness:
  "content_type \<lparr>content_type = Some ''application/json'', bodyText = ''null''\<rparr>
     = Some ''application/json'' \<and>
   str_includes ''application/json'' ''application/json'' \<and>
   trim (bodyText \<lparr>content_type = Some ''application/json'', bodyText = ''null''\<rparr>) \<noteq> [] \<and>
   JSON_parse (bodyText \<lparr>content_type = Some ''application/json'', bodyText = ''null''\<rparr>)
     = Inr JNull \<and>
   is_primitive JNull \<and>
   (\<exists>msg. handleBroadcast JSON_parse ''2025-06-26T12:01:00.000Z''
      \<lparr>content_type = Some ''application/json'', bodyText = ''null''\<rparr>
      (constructor ''room'' None None) =
      (\<lparr>status = 400,
        headers = corsHeaders [(''Content-Type'', ''application/json'')],
        body = JObject [(''success'', JBool False), (''error'', JString msg)]\<rparr>,
       constructor ''room'' None None))"
proof -
  let ?req = "\<lparr>content_type = Some ''application/json'', bodyText = ''null''\<rparr>"
  have 1: "content_type ?req = Some ''application/json''" by simp
  have 2: "str_includes ''application/json'' ''application/json''" by simp
  have 3: "trim (bodyText ?req) \<noteq> []" by (simp add: trim_def is_js_space_def)
  have 4: "JSON_parse (bodyText ?req) = Inr JNull" by code_simp
  have 5: "is_primitive JNull" by simp
  from publish_non_object_json [where parse = JSON_parse and req = ?req, OF 1 2 3 4 5] 1 2 3 4 5 show ?thesis by simp
qed

end
